theory Spec2Isabelle
  imports Main
begin

section \<open>Data model of the workbench store\<close>

text \<open>
  The model follows \<open>WorkbenchStore\<close> (app/lib/stores/workbench). Strings are
  \<open>string\<close>; the nanostores map of artifacts is a partial map; the file map is an
  association list, since \<open>Object.entries\<close> enumerates it in order; the set of unsaved
  files is a set of paths. The record of the store has the fields that the operations
  below read or write; the terminal, the previews and the visibility flags are left out.
\<close>

datatype dirent = File (content: string) (isBinary: bool) | Folder

type_synonym FileMap = "(string \<times> dirent option) list"

record EditorDocument =
  doc_value :: string
  filePath :: string

record BoltAction =
  action_type :: string
  action_filePath :: string
  action_content :: string

record ActionCallbackData =
  artifactId :: string
  messageId :: string
  actionId :: string
  action :: BoltAction

text \<open>
  Modelled from the spec: \<open>ActionRunner\<close> (lib/runtime/action-runner) is not among the
  sources. The spec calls it the collaborator that receives the file-write and
  shell-command actions, so a runner is the sequence of calls it has received, each with
  the arguments as the caller passed them (\<open>None\<close> for an omitted \<open>isStreaming\<close>).
\<close>

datatype runner_call =
  AddAction ActionCallbackData
| RunAction ActionCallbackData "bool option"

type_synonym ActionRunner = "runner_call list"

record ArtifactState =
  artifact_id :: string
  title :: string
  closed :: bool
  runner :: ActionRunner

text \<open>
  What indexing the artifacts object can yield. The store is created as \<open>map({})\<close>, a
  plain object, and \<open>artifacts[id]\<close> reads through to \<open>Object.prototype\<close>: besides a
  registered artifact the result can be a member that every object inherits, or the
  object that \<open>updateArtifact\<close> makes from such a member, which has at most a title
  and a closed flag and neither id nor runner.
\<close>

datatype artifact_value =
  Artifact ArtifactState
| Fragment "string option" "bool option"
| Inherited



datatype WorkbenchViewType = code | preview

datatype error = Unreachable string | TypeError | SyntaxError

record WorkbenchStore =
  artifacts :: "string \<rightharpoonup> artifact_value"
  artifactIdList :: "string list"
  currentView :: WorkbenchViewType
  unsavedFiles :: "string set"
  files :: FileMap
  documents :: "string \<rightharpoonup> EditorDocument"
  selectedFile :: "string option"

text \<open>The store as the constructor leaves it, with no files and no documents.\<close>

definition initialStore :: WorkbenchStore where
  "initialStore =
     \<lparr>artifacts = Map.empty, artifactIdList = [], currentView = code, unsavedFiles = {},
      files = [], documents = Map.empty, selectedFile = None\<rparr>"

section \<open>The collaborating stores\<close>

text \<open>
  Modelled from the spec: \<open>unreachable\<close> (utils/unreachable) is not among the sources;
  it signals an error carrying its message and never returns.
\<close>

definition unreachable :: "string \<Rightarrow> error" where
  "unreachable msg = Unreachable msg"

text \<open>
  Modelled from the spec: \<open>FilesStore\<close> (lib/stores/files) is not among the sources.
  \<open>getFile\<close> yields the entry stored for a path when that entry is a file;
  \<open>saveFile\<close> stores the given content as a text file under the path, in place when
  the path is already a key and as a new last entry otherwise. A rejection of the
  write by the webcontainer is outside this model.
\<close>

definition getFile :: "FileMap \<Rightarrow> string \<Rightarrow> dirent option" where
  "getFile fm p =
     (case map_of fm p of
        Some (Some (File c b)) \<Rightarrow> Some (File c b)
      | _ \<Rightarrow> None)"

fun setKey :: "('k \<times> 'v) list \<Rightarrow> 'k \<Rightarrow> 'v \<Rightarrow> ('k \<times> 'v) list" where
  "setKey [] p d = [(p, d)]"
| "setKey ((q, e) # fm) p d = (if q = p then (p, d) # fm else (q, e) # setKey fm p d)"

definition files_saveFile :: "FileMap \<Rightarrow> string \<Rightarrow> string \<Rightarrow> FileMap" where
  "files_saveFile fm p c = setKey fm p (Some (File c False))"

text \<open>
  Modelled from the spec: \<open>EditorStore\<close> (lib/stores/editor) is not among the sources.
  It holds the editor documents by path and the selected path; the current document is
  the document stored under the selected path; \<open>updateFile\<close> replaces the value of an
  existing document and does nothing when there is none.
\<close>

definition currentDocument :: "'a WorkbenchStore_scheme \<Rightarrow> EditorDocument option" where
  "currentDocument s =
     (case selectedFile s of None \<Rightarrow> None | Some p \<Rightarrow> documents s p)"

definition updateFile :: "string \<Rightarrow> string \<Rightarrow> 'a WorkbenchStore_scheme \<Rightarrow> 'a WorkbenchStore_scheme" where
  "updateFile p newContent s =
     (case documents s p of
        None \<Rightarrow> s
      | Some d \<Rightarrow> s\<lparr>documents := (documents s)(p \<mapsto> d\<lparr>doc_value := newContent\<rparr>)\<rparr>)"

definition setSelectedFile :: "string option \<Rightarrow> 'a WorkbenchStore_scheme \<Rightarrow> 'a WorkbenchStore_scheme" where
  "setSelectedFile p s = s\<lparr>selectedFile := p\<rparr>"

section \<open>Operations of WorkbenchStore\<close>

text \<open>
  The names of the members of \<open>Object.prototype\<close>. The field \<open>artifacts\<close> holds the
  own properties of the artifacts object; \<open>#getArtifact\<close> finds an own property first
  and an inherited member otherwise.
\<close>

definition prototype_names :: "string list" where
  "prototype_names =
     [''constructor'', ''__defineGetter__'', ''__defineSetter__'', ''hasOwnProperty'',
      ''__lookupGetter__'', ''__lookupSetter__'', ''isPrototypeOf'', ''propertyIsEnumerable'',
      ''toString'', ''valueOf'', ''__proto__'', ''toLocaleString'']"

definition getArtifact :: "'a WorkbenchStore_scheme \<Rightarrow> string \<Rightarrow> artifact_value option" where
  "getArtifact s i =
     (case artifacts s i of
        Some v \<Rightarrow> Some v
      | None \<Rightarrow> if i \<in> set prototype_names then Some Inherited else None)"





text \<open>A call on the runner of the artifact registered under \<open>m\<close> is appended to its log.\<close>

definition runner_call :: "string \<Rightarrow> runner_call \<Rightarrow> 'a WorkbenchStore_scheme \<Rightarrow> 'a WorkbenchStore_scheme" where
  "runner_call m c s =
     (case artifacts s m of
        Some (Artifact a) \<Rightarrow> s\<lparr>artifacts := (artifacts s)(m \<mapsto> Artifact (a\<lparr>runner := runner a @ [c]\<rparr>))\<rparr>
      | _ \<Rightarrow> s)"


definition setCurrentDocumentContent :: "string \<Rightarrow> 'a WorkbenchStore_scheme \<Rightarrow> 'a WorkbenchStore_scheme" where
  "setCurrentDocumentContent newContent s =
     (case currentDocument s of
        None \<Rightarrow> s
      | Some d0 \<Rightarrow>
          if filePath d0 = [] then s
          else
            let originalContent = map_option content (getFile (files s) (filePath d0));
                unsavedChanges = (originalContent \<noteq> None \<and> originalContent \<noteq> Some newContent);
                s1 = updateFile (filePath d0) newContent s
            in (case currentDocument s1 of
                  None \<Rightarrow> s1
                | Some d1 \<Rightarrow>
                    if unsavedChanges \<and> filePath d1 \<in> unsavedFiles s1 then s1
                    else s1\<lparr>unsavedFiles :=
                              (if unsavedChanges then insert (filePath d1) (unsavedFiles s1)
                               else unsavedFiles s1 - {filePath d1})\<rparr>))"

definition saveFile :: "string \<Rightarrow> 'a WorkbenchStore_scheme \<Rightarrow> 'a WorkbenchStore_scheme" where
  "saveFile p s =
     (case documents s p of
        None \<Rightarrow> s
      | Some d \<Rightarrow>
          s\<lparr>files := files_saveFile (files s) p (doc_value d),
            unsavedFiles := unsavedFiles s - {p}\<rparr>)"

definition resetCurrentDocument :: "'a WorkbenchStore_scheme \<Rightarrow> 'a WorkbenchStore_scheme" where
  "resetCurrentDocument s =
     (case currentDocument s of
        None \<Rightarrow> s
      | Some d \<Rightarrow>
          (case getFile (files s) (filePath d) of
             None \<Rightarrow> s
           | Some f \<Rightarrow> setCurrentDocumentContent (content f) s))"

text \<open>
  \<open>runAction\<close>. The working directory of the webcontainer and \<open>nodePath.join\<close> are
  parameters. The steps are in the order of the source: \<open>runAction_edit\<close> is the
  file branch up to and including \<open>updateFile\<close>, \<open>runAction_file\<close> the whole branch.
\<close>

definition runAction_edit ::
  "(string \<Rightarrow> string \<Rightarrow> string) \<Rightarrow> string \<Rightarrow> ActionCallbackData \<Rightarrow> bool \<Rightarrow>
   'a WorkbenchStore_scheme \<Rightarrow> 'a WorkbenchStore_scheme" where
  "runAction_edit join workdir d isStreaming s =
     (let fullPath = join workdir (action_filePath (action d));
          s1 = (if selectedFile s \<noteq> Some fullPath then setSelectedFile (Some fullPath) s else s);
          s2 = (if currentView s1 \<noteq> code then s1\<lparr>currentView := code\<rparr> else s1);
          s3 = (if documents s2 fullPath = None
                then runner_call (messageId d) (RunAction d (Some isStreaming)) s2 else s2)
      in updateFile fullPath (action_content (action d)) s3)"

definition runAction_file ::
  "(string \<Rightarrow> string \<Rightarrow> string) \<Rightarrow> string \<Rightarrow> ActionCallbackData \<Rightarrow> bool \<Rightarrow>
   'a WorkbenchStore_scheme \<Rightarrow> 'a WorkbenchStore_scheme" where
  "runAction_file join workdir d isStreaming s =
     (let s4 = runAction_edit join workdir d isStreaming s
      in if \<not> isStreaming
         then runner_call (messageId d) (RunAction d None) (resetCurrentDocument s4)
         else s4)"

text \<open>
  The file branch when the object found has no runner: the steps are the same, and the
  first call on \<open>artifact.runner\<close> throws.
\<close>

definition runAction_file_without_runner ::
  "(string \<Rightarrow> string \<Rightarrow> string) \<Rightarrow> string \<Rightarrow> ActionCallbackData \<Rightarrow> bool \<Rightarrow>
   'a WorkbenchStore_scheme \<Rightarrow> error option \<times> 'a WorkbenchStore_scheme" where
  "runAction_file_without_runner join workdir d isStreaming s =
     (let fullPath = join workdir (action_filePath (action d));
          s1 = (if selectedFile s \<noteq> Some fullPath then setSelectedFile (Some fullPath) s else s);
          s2 = (if currentView s1 \<noteq> code then s1\<lparr>currentView := code\<rparr> else s1)
      in if documents s2 fullPath = None then (Some TypeError, s2)
         else
           let s4 = updateFile fullPath (action_content (action d)) s2
           in if \<not> isStreaming then (Some TypeError, resetCurrentDocument s4)
              else (None, s4))"

definition runAction ::
  "(string \<Rightarrow> string \<Rightarrow> string) \<Rightarrow> string \<Rightarrow> ActionCallbackData \<Rightarrow> bool \<Rightarrow>
   'a WorkbenchStore_scheme \<Rightarrow> error option \<times> 'a WorkbenchStore_scheme" where
  "runAction join workdir d isStreaming s =
     (case getArtifact s (messageId d) of
        None \<Rightarrow> (Some (unreachable ''Artifact not found''), s)
      | Some (Artifact a) \<Rightarrow>
          if action_type (action d) = ''file''
          then (None, runAction_file join workdir d isStreaming s)
          else (None, runner_call (messageId d) (RunAction d None) s)
      | Some _ \<Rightarrow>
          if action_type (action d) = ''file''
          then runAction_file_without_runner join workdir d isStreaming s
          else (Some TypeError, s))"

section \<open>Paths\<close>

text \<open>\<open>filePath.replace(/^\/home\/project\//, '')\<close>: the prefix is removed when present.\<close>

definition relativePath :: "string \<Rightarrow> string" where
  "relativePath p = (if take 14 p = ''/home/project/'' then drop 14 p else p)"

text \<open>\<open>String.prototype.split\<close> on a one-character separator; the result is never empty.\<close>

fun str_split :: "char \<Rightarrow> string \<Rightarrow> string list" where
  "str_split c [] = [[]]"
| "str_split c (x # xs) =
     (if x = c then [] # str_split c xs
      else (case str_split c xs of [] \<Rightarrow> [[x]] | y # ys \<Rightarrow> (x # y) # ys))"

text \<open>The test \<open>dirent?.type === 'file' && !dirent.isBinary\<close>, yielding the content.\<close>

fun textContent :: "dirent option \<Rightarrow> string option" where
  "textContent (Some (File c False)) = Some c"
| "textContent _ = None"

section \<open>syncFiles\<close>

text \<open>
  The File System Access API is the browser's. A directory handle is represented by the
  list of names that leads to it from the target handle, and the effect of
  \<open>syncFiles\<close> on the target is the sequence of calls it makes. Whether a call is
  granted is for the target to decide: the target is a parameter that, from the calls
  made so far and the next call, gives the error with which the call is rejected, if it
  is.
\<close>

datatype fs_call =
  GetDirectoryHandle "string list" string
| GetFileHandle "string list" string
| CreateWritable "string list" string
| Write "string list" string string
| Close "string list" string

type_synonym fs_target = "fs_call list \<Rightarrow> fs_call \<Rightarrow> error option"

text \<open>
  By the File System standard \<open>getDirectoryHandle\<close> and \<open>getFileHandle\<close> reject with
  a \<open>TypeError\<close> when the name is not a valid file name, that is, when it is empty, a
  dot, two dots, or has a slash in it. \<open>standard_target\<close> is the target that rejects
  these calls and no other.
\<close>

definition valid_name :: "string \<Rightarrow> bool" where
  "valid_name n \<longleftrightarrow> n \<noteq> [] \<and> n \<noteq> ''.'' \<and> n \<noteq> ''..'' \<and> CHR ''/'' \<notin> set n"

fun standard_target :: fs_target where
  "standard_target made (GetDirectoryHandle h n) = (if valid_name n then None else Some TypeError)"
| "standard_target made (GetFileHandle h n) = (if valid_name n then None else Some TypeError)"
| "standard_target made c = None"

text \<open>
  The inner loop: one \<open>getDirectoryHandle(name, { create: true })\<close> per leading segment.
  A rejected call is the last call.
\<close>

fun descend ::
  "fs_target \<Rightarrow> string list \<Rightarrow> string list \<Rightarrow> fs_call list \<Rightarrow>
   error option \<times> string list \<times> fs_call list" where
  "descend target [] h calls = (None, h, calls)"
| "descend target (n # ns) h calls =
     (case target calls (GetDirectoryHandle h n) of
        Some e \<Rightarrow> (Some e, h, calls @ [GetDirectoryHandle h n])
      | None \<Rightarrow> descend target ns (h @ [n]) (calls @ [GetDirectoryHandle h n]))"

text \<open>Calls awaited one after the other, up to the first that is rejected.\<close>

fun await_calls :: "fs_target \<Rightarrow> fs_call list \<Rightarrow> fs_call list \<Rightarrow> error option \<times> fs_call list" where
  "await_calls target [] calls = (None, calls)"
| "await_calls target (c # cs) calls =
     (case target calls c of
        Some e \<Rightarrow> (Some e, calls @ [c])
      | None \<Rightarrow> await_calls target cs (calls @ [c]))"

text \<open>
  The loop over the file map. \<open>syncFiles\<close> has no handler, so a rejected call ends it:
  the calls made so far stay made and no list is returned.
\<close>

fun syncFiles_loop ::
  "fs_target \<Rightarrow> FileMap \<Rightarrow> fs_call list \<times> string list \<Rightarrow>
   fs_call list \<times> (error + string list)" where
  "syncFiles_loop target [] (calls, syncedFiles) = (calls, Inr syncedFiles)"
| "syncFiles_loop target ((p, dirent) # rest) (calls, syncedFiles) =
     (case textContent dirent of
        None \<Rightarrow> syncFiles_loop target rest (calls, syncedFiles)
      | Some c \<Rightarrow>
          let pathSegments = str_split CHR ''/'' (relativePath p);
              n = last pathSegments
          in (case descend target (butlast pathSegments) [] calls of
                (Some e, h, calls1) \<Rightarrow> (calls1, Inl e)
              | (None, h, calls1) \<Rightarrow>
                  (case await_calls target
                          [GetFileHandle h n, CreateWritable h n, Write h n c, Close h n] calls1 of
                     (Some e, calls2) \<Rightarrow> (calls2, Inl e)
                   | (None, calls2) \<Rightarrow>
                       syncFiles_loop target rest (calls2, syncedFiles @ [relativePath p]))))"

definition syncFiles ::
  "fs_target \<Rightarrow> 'a WorkbenchStore_scheme \<Rightarrow> fs_call list \<times> (error + string list)" where
  "syncFiles target s = syncFiles_loop target (files s) ([], [])"

section \<open>The zip archive\<close>

text \<open>
  JSZip is a third-party library. An archive is its table of entries by full name, in
  insertion order; a folder entry has a name that ends in a slash. A JSZip object is a
  root prefix into the shared table. \<open>fileAdd\<close> first adds the parent folder when it is
  missing (the library's \<open>createFolders\<close> default), \<open>folder\<close> adds the folder when it
  is missing and returns the object rooted there (the object itself for an empty name),
  and \<open>file\<close> with one argument reads an entry that is not a folder.
\<close>

datatype json =
  JNull | JBool bool | JNumber int | JString string
| JArray "json list" | JObject "(string \<times> json) list"

text \<open>
  The text of an entry: \<open>Json j\<close> is the text \<open>JSON.stringify(j, null, 2)\<close>, which
  \<open>JSON.parse\<close> reads back as \<open>j\<close>; \<open>Text t\<close> is any text that is not JSON.
\<close>

datatype zdata = Text string | Json json

datatype zentry = ZDir | ZFile zdata

type_synonym zfiles = "(string \<times> zentry) list"

definition forceTrailingSlash :: "string \<Rightarrow> string" where
  "forceTrailingSlash p = (if p \<noteq> [] \<and> last p = CHR ''/'' then p else p @ ''/'')"

definition lastIndexOf :: "char \<Rightarrow> string \<Rightarrow> nat option" where
  "lastIndexOf c p =
     (if c \<in> set p then Some (length p - 1 - length (takeWhile (\<lambda>x. x \<noteq> c) (rev p))) else None)"

definition parentFolder :: "string \<Rightarrow> string" where
  "parentFolder path =
     (let p = (if path \<noteq> [] \<and> last path = CHR ''/'' then butlast path else path)
      in case lastIndexOf CHR ''/'' p of
           None \<Rightarrow> []
         | Some i \<Rightarrow> if 0 < i then take i p else [])"

function fileAdd :: "string \<Rightarrow> zentry \<Rightarrow> zfiles \<Rightarrow> zfiles" where
  "fileAdd name e fs =
     (let name1 = (if e = ZDir then forceTrailingSlash name else name);
          parent = parentFolder name1;
          fs1 = (if parent = [] then fs
                 else if map_of fs (forceTrailingSlash parent) \<noteq> None then fs
                 else fileAdd (forceTrailingSlash parent) ZDir fs)
      in setKey fs1 name1 e)"
  by pat_completeness auto
termination
proof (relation "measure (\<lambda>(name, e, fs). length (if e = ZDir then forceTrailingSlash name else name))")
  show "wf (measure (\<lambda>(name, e, fs). length (if e = ZDir then forceTrailingSlash name else name)))"
    by simp
next
  fix name :: string and e :: zentry and fs :: zfiles and x xa
  assume x: "x = (if e = ZDir then forceTrailingSlash name else name)"
    and xa: "xa = parentFolder x" "xa \<noteq> []"
  have less: "i < length p" if "lastIndexOf c p = Some i" for c p i
    using that by (cases p) (auto simp: lastIndexOf_def split: if_splits)
  have less_last: "Suc i < length p" if l: "lastIndexOf c p = Some i" and n: "last p \<noteq> c" for c p i
  proof -
    from l have m: "c \<in> set p"
      and i: "i = length p - 1 - length (takeWhile (\<lambda>x. x \<noteq> c) (rev p))"
      by (auto simp: lastIndexOf_def split: if_splits)
    from m have ne: "p \<noteq> []" by auto
    then have r: "rev p = last p # rev (butlast p)"
      by (metis append_butlast_last_id rev.simps(2) rev_append rev_rev_ident)
    have "0 < length (takeWhile (\<lambda>x. x \<noteq> c) (rev p))"
      using n by (simp add: r)
    moreover have "length (takeWhile (\<lambda>x. x \<noteq> c) (rev p)) \<le> length p"
      by (metis length_rev length_takeWhile_le)
    moreover have "1 < length p"
    proof (rule ccontr)
      assume "\<not> 1 < length p"
      with ne have "length p = 1" by (cases p) auto
      then obtain y where "p = [y]" by (cases p) auto
      with m n show False by simp
    qed
    ultimately show ?thesis using i by arith
  qed
  have le: "length (forceTrailingSlash p) \<le> Suc (length p)" for p
    by (simp add: forceTrailingSlash_def)
  have "length (forceTrailingSlash xa) < length x"
  proof (cases "x \<noteq> [] \<and> last x = CHR ''/''")
    case True
    then obtain i where i: "lastIndexOf CHR ''/'' (butlast x) = Some i" "xa = take i (butlast x)"
      using xa by (auto simp: parentFolder_def Let_def split: option.splits if_splits)
    from less[OF i(1)] have "i < length x - 1" by simp
    then have "Suc (length xa) < length x" using i(2) by simp
    then show ?thesis using le[of xa] by arith
  next
    case False
    then obtain i where i: "lastIndexOf CHR ''/'' x = Some i" "xa = take i x"
      using xa by (auto simp: parentFolder_def Let_def split: option.splits if_splits)
    from i(1) have "x \<noteq> []" by (auto simp: lastIndexOf_def split: if_splits)
    with False have "last x \<noteq> CHR ''/''" by simp
    from less_last[OF i(1) this] have "Suc (length xa) < length x" using i(2) by simp
    then show ?thesis using le[of xa] by arith
  qed
  moreover have "forceTrailingSlash (forceTrailingSlash xa) = forceTrailingSlash xa"
    by (simp add: forceTrailingSlash_def)
  ultimately show "((forceTrailingSlash xa, ZDir, fs), name, e, fs)
       \<in> measure (\<lambda>(name, e, fs). length (if e = ZDir then forceTrailingSlash name else name))"
    using x by simp
qed

declare fileAdd.simps [simp del]

definition folderAdd :: "string \<Rightarrow> zfiles \<Rightarrow> string \<times> zfiles" where
  "folderAdd name fs =
     (let n = forceTrailingSlash name
      in (n, if map_of fs n \<noteq> None then fs else fileAdd n ZDir fs))"

text \<open>A JSZip object is given by its root; the operations take and return the table.\<close>

definition zip_folder :: "string \<Rightarrow> string \<Rightarrow> zfiles \<Rightarrow> string \<times> zfiles" where
  "zip_folder arg root fs = (if arg = [] then (root, fs) else folderAdd (root @ arg) fs)"

definition zip_file :: "string \<Rightarrow> zdata \<Rightarrow> string \<Rightarrow> zfiles \<Rightarrow> zfiles" where
  "zip_file name data root fs = fileAdd (root @ name) (ZFile data) fs"

definition zip_file_get :: "string \<Rightarrow> string \<Rightarrow> zfiles \<Rightarrow> zdata option" where
  "zip_file_get name root fs =
     (case map_of fs (root @ name) of Some (ZFile d) \<Rightarrow> Some d | _ \<Rightarrow> None)"

section \<open>downloadZip and exportProject\<close>

text \<open>The loop \<open>currentFolder = currentFolder.folder(pathSegments[i])\<close> over the leading segments.\<close>

fun folders :: "string list \<Rightarrow> string \<Rightarrow> zfiles \<Rightarrow> string \<times> zfiles" where
  "folders [] root fs = (root, fs)"
| "folders (n # ns) root fs = (case zip_folder n root fs of (r, fs1) \<Rightarrow> folders ns r fs1)"

text \<open>The body of the loop over the file map, for an archive folder with root \<open>base\<close>.\<close>

definition zip_add :: "string \<Rightarrow> string \<Rightarrow> string \<Rightarrow> zfiles \<Rightarrow> zfiles" where
  "zip_add base p c fs =
     (let pathSegments = str_split CHR ''/'' (relativePath p)
      in if 1 < length pathSegments
         then (case folders (butlast pathSegments) base fs of
                 (r, fs1) \<Rightarrow> zip_file (last pathSegments) (Text c) r fs1)
         else zip_file (relativePath p) (Text c) base fs)"

fun zip_loop :: "string \<Rightarrow> FileMap \<Rightarrow> zfiles \<Rightarrow> zfiles" where
  "zip_loop base [] fs = fs"
| "zip_loop base ((p, dirent) # rest) fs =
     (case textContent dirent of
        None \<Rightarrow> zip_loop base rest fs
      | Some c \<Rightarrow> zip_loop base rest (zip_add base p c fs))"

text \<open>\<open>downloadZip\<close> hands the archive to \<open>saveAs\<close> under a fixed name.\<close>

definition downloadZip :: "'a WorkbenchStore_scheme \<Rightarrow> string \<times> zfiles" where
  "downloadZip s = (''project.zip'', zip_loop [] (files s) [])"







datatype toast = ToastError string | ToastSuccess string | ToastInfo string


text \<open>
  Modelled from the spec: the persistence layer (lib/persistence) is not among the
  sources. The database, when available, is the list of the stored chats, each a JSON
  object; \<open>getAll\<close> reads all of them, \<open>deleteById\<close> removes the chats with the given
  id, \<open>setMessages\<close> stores a chat under its id. Requests are taken to succeed.
\<close>

type_synonym chat_db = "json list"

definition getAll :: "chat_db \<Rightarrow> json list" where
  "getAll db = db"

text \<open>Reading a property: \<open>None\<close> is \<open>undefined\<close>.\<close>

fun json_get :: "json \<Rightarrow> string \<Rightarrow> json option" where
  "json_get (JObject kvs) k = map_of kvs k"
| "json_get _ k = None"

definition deleteById :: "chat_db \<Rightarrow> json option \<Rightarrow> chat_db" where
  "deleteById db i = filter (\<lambda>row. json_get row ''id'' \<noteq> i) db"

definition json_field :: "string \<Rightarrow> json option \<Rightarrow> (string \<times> json) list" where
  "json_field k v = (case v of None \<Rightarrow> [] | Some j \<Rightarrow> [(k, j)])"

definition setMessages ::
  "chat_db \<Rightarrow> json option \<Rightarrow> json option \<Rightarrow> json option \<Rightarrow> json option \<Rightarrow> chat_db" where
  "setMessages db i messages urlId description =
     deleteById db i @
       [JObject (json_field ''id'' i @ json_field ''messages'' messages @ json_field ''urlId'' urlId @
                 json_field ''description'' description)]"


section \<open>importProjectBackup\<close>

text \<open>\<open>JSON.parse\<close> on the text of an entry; \<open>None\<close> is the thrown \<open>SyntaxError\<close>.\<close>

fun JSON_parse :: "zdata \<Rightarrow> json option" where
  "JSON_parse (Json j) = Some j"
| "JSON_parse (Text t) = None"

text \<open>The truth value JavaScript gives to a property that was read.\<close>

fun truthy :: "json option \<Rightarrow> bool" where
  "truthy None = False"
| "truthy (Some JNull) = False"
| "truthy (Some (JBool b)) = b"
| "truthy (Some (JNumber n)) = (n \<noteq> 0)"
| "truthy (Some (JString t)) = (t \<noteq> [])"
| "truthy (Some _) = True"

text \<open>The calls on the file system of the webcontainer, in order.\<close>

datatype wc_call =
  Rm string
| Mkdir string
| MkdirRecursive string
| WriteFile string zdata

record ImportResult =
  import_db :: "chat_db option"
  import_fs :: "wc_call list"
  import_toasts :: "toast list"

text \<open>
  The loop that restores the chats. Reading a property of \<open>null\<close> throws; the chats
  stored before that stay stored.
\<close>

fun restore_chats :: "json list \<Rightarrow> chat_db \<Rightarrow> error option \<times> chat_db" where
  "restore_chats [] db = (None, db)"
| "restore_chats (item # items) db =
     (if item = JNull then (Some TypeError, db)
      else restore_chats items
             (setMessages db (json_get item ''id'') (json_get item ''messages'')
                (json_get item ''urlId'') (json_get item ''description'')))"

definition clear_history :: "chat_db \<Rightarrow> chat_db" where
  "clear_history db = fold (\<lambda>item d. deleteById d (json_get item ''id'')) (getAll db) db"

text \<open>The body of the loop over \<open>codeFolder.files\<close>, which is the table of the whole archive.\<close>

fun restore_file :: "string \<times> zentry \<Rightarrow> wc_call list" where
  "restore_file (path, ZDir) = []"
| "restore_file (path, ZFile c) =
     (let cleanPath = dropWhile (\<lambda>x. x = CHR ''/'') path;
          fullPath = ''/home/project/'' @ cleanPath;
          parentDir = (case lastIndexOf CHR ''/'' fullPath of
                         None \<Rightarrow> [] | Some i \<Rightarrow> take i fullPath)
      in (if parentDir \<noteq> ''/home/project'' then [MkdirRecursive parentDir] else []) @
         [WriteFile fullPath c])"

definition restore_code :: "zfiles \<Rightarrow> wc_call list" where
  "restore_code z = [Rm ''/home/project'', Mkdir ''/home/project''] @ concat (map restore_file z)"

text \<open>
  \<open>importProjectBackup\<close>, from the loaded archive and the database. \<open>zip.folder('code')\<close>
  yields a JSZip object, which is never falsy, so the third disjunct of the structure
  test does not occur in the model.
\<close>

definition importProjectBackup :: "zfiles \<Rightarrow> chat_db option \<Rightarrow> ImportResult" where
  "importProjectBackup z db =
     (let metadata = zip_file_get ''metadata.json'' [] z;
          chatHistory = zip_file_get ''chat_history.json'' [] z
      in case zip_folder ''code'' [] z of
           (codeFolder, z1) \<Rightarrow>
             (case (metadata, chatHistory) of
                (Some m, Some h) \<Rightarrow>
                  (case JSON_parse m of
                     None \<Rightarrow>
                       \<lparr>import_db = db, import_fs = [],
                        import_toasts = [ToastError ''Failed to restore project backup'']\<rparr>
                   | Some JNull \<Rightarrow>
                       \<lparr>import_db = db, import_fs = [],
                        import_toasts = [ToastError ''Failed to restore project backup'']\<rparr>
                   | Some metadataJson \<Rightarrow>
                       if \<not> truthy (json_get metadataJson ''version'') \<or>
                          \<not> truthy (json_get metadataJson ''exportDate'')
                       then \<lparr>import_db = db, import_fs = [],
                             import_toasts = [ToastError ''Invalid backup metadata'']\<rparr>
                       else
                         (case (case JSON_parse h of
                                  None \<Rightarrow> (Some SyntaxError, db)
                                | Some JNull \<Rightarrow> (Some TypeError, db)
                                | Some (JArray items) \<Rightarrow>
                                    (case db of
                                       None \<Rightarrow> (None, db)
                                     | Some d \<Rightarrow>
                                         (case restore_chats items (clear_history d) of
                                            (e, d') \<Rightarrow> (e, Some d')))
                                | Some _ \<Rightarrow> (None, db)) of
                            (Some e, db') \<Rightarrow>
                              \<lparr>import_db = db', import_fs = [],
                               import_toasts = [ToastInfo ''Starting project restore...'',
                                                ToastError ''Failed to restore chat history'']\<rparr>
                          | (None, db') \<Rightarrow>
                              \<lparr>import_db = db', import_fs = restore_code z1,
                               import_toasts = [ToastInfo ''Starting project restore...'',
                                                ToastSuccess ''Project restored successfully'']\<rparr>))
              | _ \<Rightarrow>
                  \<lparr>import_db = db, import_fs = [],
                   import_toasts = [ToastError ''Invalid backup file format'']\<rparr>))"

section \<open>Example states\<close>

definition ex_join :: "string \<Rightarrow> string \<Rightarrow> string" where
  "ex_join w p = w @ ''/'' @ p"


definition ex_file_action :: ActionCallbackData where
  "ex_file_action =
     \<lparr>artifactId = ''a1'', messageId = ''m1'', actionId = ''0'',
      action = \<lparr>action_type = ''file'', action_filePath = ''a.ts'', action_content = ''x''\<rparr>\<rparr>"

definition ex_shell_action :: ActionCallbackData where
  "ex_shell_action =
     \<lparr>artifactId = ''a1'', messageId = ''m1'', actionId = ''1'',
      action = \<lparr>action_type = ''shell'', action_filePath = [], action_content = ''npm i''\<rparr>\<rparr>"






definition ex_files :: FileMap where
  "ex_files =
     [(''/home/project/a.ts'', Some (File ''a'' False)),
      (''/home/project/img.png'', Some (File [] True)),
      (''/home/project/src'', Some Folder),
      (''/home/project/src/b.ts'', Some (File ''b'' False))]"

definition ex_store :: WorkbenchStore where
  "ex_store =
     \<lparr>artifacts = [''m1'' \<mapsto> Artifact \<lparr>artifact_id = ''a1'', title = ''Todo  App'', closed = False, runner = []\<rparr>],
      artifactIdList = [''m1''], currentView = preview, unsavedFiles = {''/home/project/src/b.ts''},
      files = ex_files,
      documents = [''/home/project/a.ts'' \<mapsto> \<lparr>doc_value = ''a'', filePath = ''/home/project/a.ts''\<rparr>],
      selectedFile = Some ''/home/project/a.ts''\<rparr>"

text \<open>A store whose current document has the empty path.\<close>

definition ex_empty_path_store :: WorkbenchStore where
  "ex_empty_path_store =
     \<lparr>artifacts = Map.empty, artifactIdList = [], currentView = code, unsavedFiles = {},
      files = [([], Some (File ''a'' False))],
      documents = [[] \<mapsto> \<lparr>doc_value = ''a'', filePath = []\<rparr>],
      selectedFile = Some []\<rparr>"

text \<open>
  A store whose first artifact has an empty title and whose file map has two text
  files with the same relative path.
\<close>

definition ex_odd_store :: WorkbenchStore where
  "ex_odd_store =
     \<lparr>artifacts = [''m1'' \<mapsto> Artifact \<lparr>artifact_id = ''a1'', title = [], closed = False, runner = []\<rparr>],
      artifactIdList = [''m1''], currentView = code, unsavedFiles = {},
      files = [(''/home/project/a'', Some (File ''x'' False)), (''a'', Some (File ''y'' False))],
      documents = Map.empty, selectedFile = None\<rparr>"

text \<open>A store whose only file has a path with an empty segment.\<close>

definition ex_gap_store :: WorkbenchStore where
  "ex_gap_store =
     \<lparr>artifacts = Map.empty, artifactIdList = [], currentView = code, unsavedFiles = {},
      files = [(''/home/project/a//b'', Some (File ''x'' False))],
      documents = Map.empty, selectedFile = None\<rparr>"



text \<open>
  A backup archive with valid metadata and an empty chat history but no code folder,
  and a database that holds one chat.
\<close>

definition ex_backup :: zfiles where
  "ex_backup =
     [(''metadata.json'',
       ZFile (Json (JObject [(''exportDate'', JString ''2024-01-02T03:04:05.678Z''),
                             (''version'', JString ''1.0''),
                             (''projectName'', JString ''project'')]))),
      (''chat_history.json'', ZFile (Json (JArray [])))]"

definition ex_db :: chat_db where
  "ex_db = [JObject [(''id'', JString ''1''), (''messages'', JArray []),
                     (''urlId'', JString ''1''), (''description'', JString ''Todo'')]]"

section \<open>The entries of the file map that are exported\<close>

text \<open>
  The entries of type file that are not binary, in the order of the file map, each with
  its content.
\<close>

definition text_entries :: "FileMap \<Rightarrow> (string \<times> string) list" where
  "text_entries fm = List.map_filter (\<lambda>(p, d). map_option (Pair p) (textContent d)) fm"

text \<open>An entry of type file that is not binary.\<close>

definition is_text_file :: "dirent option \<Rightarrow> bool" where
  "is_text_file d = (case d of Some (File c b) \<Rightarrow> \<not> b | _ \<Rightarrow> False)"

text \<open>The name of the folder reached through the given segments, and its use in paths.\<close>

definition dirname :: "string list \<Rightarrow> string" where
  "dirname ss = concat (map (\<lambda>n. n @ ''/'') ss)"

definition segments :: "string \<Rightarrow> string list" where
  "segments p = str_split CHR ''/'' (relativePath p)"

text \<open>
  What \<open>syncFiles\<close> is to do for one entry: open or create each leading directory from
  the target downwards, then open or create the file in the last one and write the
  content.
\<close>

definition dir_calls :: "string list \<Rightarrow> fs_call list" where
  "dir_calls ns = map (\<lambda>i. GetDirectoryHandle (take i ns) (ns ! i)) [0..<length ns]"

definition entry_calls :: "string \<times> string \<Rightarrow> fs_call list" where
  "entry_calls e =
     (let h = butlast (segments (fst e)); n = last (segments (fst e))
      in dir_calls h @ [GetFileHandle h n, CreateWritable h n, Write h n (snd e), Close h n])"

text \<open>The path, relative to the target, and the content that a call writes, if it writes.\<close>

fun written :: "fs_call \<Rightarrow> (string \<times> string) option" where
  "written (Write h n c) = Some (dirname h @ n, c)"
| "written _ = None"

text \<open>The folder names an entry needs in an archive folder with root \<open>base\<close>.\<close>

fun dir_names :: "string \<Rightarrow> string list \<Rightarrow> string list" where
  "dir_names r [] = []"
| "dir_names r (n # ns) = (r @ n @ ''/'') # dir_names (r @ n @ ''/'') ns"

definition zip_dirs :: "string \<Rightarrow> string \<Rightarrow> string list" where
  "zip_dirs base p = dir_names base (butlast (segments p))"

text \<open>
  A segment that names a file or a folder: not empty and without a slash. A root of an
  archive folder: empty, or a name that ends in exactly one slash. A file map has plain
  paths when no relative path of a text file has an empty segment.
\<close>

definition good_seg :: "string \<Rightarrow> bool" where
  "good_seg n \<longleftrightarrow> n \<noteq> [] \<and> CHR ''/'' \<notin> set n"

definition good_root :: "string \<Rightarrow> bool" where
  "good_root r \<longleftrightarrow> r = [] \<or> (last r = CHR ''/'' \<and> butlast r \<noteq> [] \<and> last (butlast r) \<noteq> CHR ''/'')"


text \<open>
  The target grants the given calls, made in this order after the calls \<open>made\<close>.
\<close>

fun granted :: "fs_target \<Rightarrow> fs_call list \<Rightarrow> fs_call list \<Rightarrow> bool" where
  "granted target made [] = True"
| "granted target made (c # cs) = (target made c = None \<and> granted target (made @ [c]) cs)"

text \<open>
  A file map has valid paths when every segment of the relative path of each text file
  is a valid file name.
\<close>

definition valid_paths :: "FileMap \<Rightarrow> bool" where
  "valid_paths fm \<longleftrightarrow>
     (\<forall>e \<in> set (text_entries fm). \<forall>n \<in> set (segments (fst e)). valid_name n)"

definition plain_paths :: "FileMap \<Rightarrow> bool" where
  "plain_paths fm \<longleftrightarrow> (\<forall>e \<in> set (text_entries fm). [] \<notin> set (segments (fst e)))"

section \<open>Artifacts\<close>

lemma getArtifact_None:
  "getArtifact s i = None \<longleftrightarrow> artifacts s i = None \<and> i \<notin> set prototype_names"
  by (simp add: getArtifact_def split: option.splits)

lemma getArtifact_Artifact:
  "getArtifact s i = Some (Artifact a) \<longleftrightarrow> artifacts s i = Some (Artifact a)"
  by (simp add: getArtifact_def split: option.splits)









section \<open>Actions\<close>




lemma setCurrentDocumentContent_keeps:
  "artifacts (setCurrentDocumentContent c s) = artifacts s \<and>
   selectedFile (setCurrentDocumentContent c s) = selectedFile s \<and>
   currentView (setCurrentDocumentContent c s) = currentView s \<and>
   artifactIdList (setCurrentDocumentContent c s) = artifactIdList s \<and>
   files (setCurrentDocumentContent c s) = files s"
  by (simp add: setCurrentDocumentContent_def Let_def updateFile_def split: option.splits)

lemma resetCurrentDocument_keeps:
  "artifacts (resetCurrentDocument s) = artifacts s \<and>
   selectedFile (resetCurrentDocument s) = selectedFile s \<and>
   currentView (resetCurrentDocument s) = currentView s \<and>
   artifactIdList (resetCurrentDocument s) = artifactIdList s \<and>
   files (resetCurrentDocument s) = files s"
  by (simp add: resetCurrentDocument_def setCurrentDocumentContent_keeps split: option.splits)

lemma runAction_edit_facts:
  assumes "artifacts s (messageId d) = Some (Artifact a)"
  shows "selectedFile (runAction_edit join workdir d st s) =
           Some (join workdir (action_filePath (action d)))"
    and "currentView (runAction_edit join workdir d st s) = code"
    and "documents (runAction_edit join workdir d st s) =
          (case documents s (join workdir (action_filePath (action d))) of
             None \<Rightarrow> documents s
           | Some doc \<Rightarrow> (documents s)(join workdir (action_filePath (action d)) \<mapsto>
                           doc\<lparr>doc_value := action_content (action d)\<rparr>))"
    and "artifacts (runAction_edit join workdir d st s) =
          (if documents s (join workdir (action_filePath (action d))) = None
           then (artifacts s)(messageId d \<mapsto>
                  Artifact (a\<lparr>runner := runner a @ [RunAction d (Some st)]\<rparr>))
           else artifacts s)"
  using assms
  by (auto simp: runAction_edit_def Let_def setSelectedFile_def runner_call_def updateFile_def
      split: option.splits)

text \<open>
  C1. For an action whose message id has a registered artifact, \<open>runAction\<close> signals no
  error and dispatches on the tag alone. With the tag \<open>file\<close> it takes the file branch:
  the file at the working directory joined with the path of the action is selected, the
  view becomes the code view, an existing editor document for that path receives the
  content of the action, and the runner of the artifact receives the action once when
  there was no document (with the streaming flag) and once when not streaming, which
  is preceded by a reset of the current document. With any other tag the store changes
  only in that the runner receives the action once, unchanged.
\<close>

theorem runAction_dispatch:
  assumes "getArtifact s (messageId d) = Some (Artifact a)"
  shows "(action_type (action d) = ''file'' \<longrightarrow>
            runAction join workdir d st s = (None, runAction_file join workdir d st s) \<and>
            runAction_file join workdir d st s =
              (if st then runAction_edit join workdir d st s
               else runner_call (messageId d) (RunAction d None)
                      (resetCurrentDocument (runAction_edit join workdir d st s))) \<and>
            selectedFile (runAction_edit join workdir d st s) =
              Some (join workdir (action_filePath (action d))) \<and>
            currentView (runAction_edit join workdir d st s) = code \<and>
            documents (runAction_edit join workdir d st s) =
              (case documents s (join workdir (action_filePath (action d))) of
                 None \<Rightarrow> documents s
               | Some doc \<Rightarrow> (documents s)(join workdir (action_filePath (action d)) \<mapsto>
                               doc\<lparr>doc_value := action_content (action d)\<rparr>)) \<and>
            selectedFile (runAction_file join workdir d st s) =
              Some (join workdir (action_filePath (action d))) \<and>
            currentView (runAction_file join workdir d st s) = code \<and>
            artifacts (runAction_file join workdir d st s) =
              (artifacts s)(messageId d \<mapsto> Artifact (a\<lparr>runner := runner a @
                 (if documents s (join workdir (action_filePath (action d))) = None
                  then [RunAction d (Some st)] else []) @
                 (if st then [] else [RunAction d None])\<rparr>))) \<and>
         (action_type (action d) \<noteq> ''file'' \<longrightarrow>
            runAction join workdir d st s =
              (None, s\<lparr>artifacts := (artifacts s)(messageId d \<mapsto>
                          Artifact (a\<lparr>runner := runner a @ [RunAction d None]\<rparr>))\<rparr>))"
proof -
  have a: "artifacts s (messageId d) = Some (Artifact a)"
    using assms by (simp add: getArtifact_Artifact)
  have f: "artifacts (runAction_file join workdir d st s) =
              (artifacts s)(messageId d \<mapsto> Artifact (a\<lparr>runner := runner a @
                 (if documents s (join workdir (action_filePath (action d))) = None
                  then [RunAction d (Some st)] else []) @
                 (if st then [] else [RunAction d None])\<rparr>))"
  proof (cases st)
    case True
    then show ?thesis
      using a runAction_edit_facts(4)[OF a, of join workdir True]
      by (simp add: runAction_file_def Let_def fun_upd_idem)
  next
    case False
    then show ?thesis
      using a runAction_edit_facts(4)[OF a, of join workdir False]
      by (simp add: runAction_file_def Let_def runner_call_def resetCurrentDocument_keeps)
  qed
  have g: "selectedFile (runAction_file join workdir d st s) =
              Some (join workdir (action_filePath (action d))) \<and>
            currentView (runAction_file join workdir d st s) = code"
    by (simp add: runAction_file_def Let_def runner_call_def resetCurrentDocument_keeps
        runAction_edit_facts(1,2)[OF a] split: option.splits artifact_value.splits)
  have h: "action_type (action d) \<noteq> ''file'' \<longrightarrow>
            runAction join workdir d st s =
              (None, s\<lparr>artifacts := (artifacts s)(messageId d \<mapsto>
                          Artifact (a\<lparr>runner := runner a @ [RunAction d None]\<rparr>))\<rparr>)"
    using a assms by (simp add: runAction_def runner_call_def)
  have i: "action_type (action d) = ''file'' \<longrightarrow>
            runAction join workdir d st s = (None, runAction_file join workdir d st s)"
    using assms by (simp add: runAction_def)
  have j: "runAction_file join workdir d st s =
              (if st then runAction_edit join workdir d st s
               else runner_call (messageId d) (RunAction d None)
                      (resetCurrentDocument (runAction_edit join workdir d st s)))"
    by (simp add: runAction_file_def Let_def)
  show ?thesis
    using runAction_edit_facts(1,2,3)[OF a, of join workdir st] f g h i j by blast
qed

text \<open>C1, for a file action and a shell action on the example store.\<close>

theorem runAction_dispatch_witness:
  "getArtifact ex_store (messageId ex_file_action) =
     Some (Artifact \<lparr>artifact_id = ''a1'', title = ''Todo  App'', closed = False, runner = []\<rparr>) \<and>
   action_type (action ex_file_action) = ''file'' \<and>
   fst (runAction ex_join ''/home/project'' ex_file_action True ex_store) = None \<and>
   artifacts (runAction_file ex_join ''/home/project'' ex_file_action False ex_store) ''m1'' =
     Some (Artifact \<lparr>artifact_id = ''a1'', title = ''Todo  App'', closed = False,
                    runner = [RunAction ex_file_action None]\<rparr>) \<and>
   getArtifact ex_store (messageId ex_shell_action) =
     Some (Artifact \<lparr>artifact_id = ''a1'', title = ''Todo  App'', closed = False, runner = []\<rparr>) \<and>
   action_type (action ex_shell_action) \<noteq> ''file'' \<and>
   artifacts (snd (runAction ex_join ''/home/project'' ex_shell_action True ex_store)) ''m1'' =
     Some (Artifact \<lparr>artifact_id = ''a1'', title = ''Todo  App'', closed = False,
                    runner = [RunAction ex_shell_action None]\<rparr>)"
proof -
  have a: "getArtifact ex_store (messageId ex_file_action) =
     Some (Artifact \<lparr>artifact_id = ''a1'', title = ''Todo  App'', closed = False, runner = []\<rparr>)"
    by (simp add: ex_store_def getArtifact_def ex_file_action_def)
  have b: "getArtifact ex_store (messageId ex_shell_action) =
     Some (Artifact \<lparr>artifact_id = ''a1'', title = ''Todo  App'', closed = False, runner = []\<rparr>)"
    by (simp add: ex_store_def getArtifact_def ex_shell_action_def)
  have c: "documents ex_store (ex_join ''/home/project'' (action_filePath (action ex_file_action))) \<noteq> None"
    by (simp add: ex_store_def ex_join_def ex_file_action_def)
  have m: "messageId ex_file_action = ''m1''" "messageId ex_shell_action = ''m1''"
    "action_type (action ex_file_action) = ''file''" "action_type (action ex_shell_action) \<noteq> ''file''"
    by (simp_all add: ex_file_action_def ex_shell_action_def)
  have f: "fst (runAction ex_join ''/home/project'' ex_file_action True ex_store) = None"
    using runAction_dispatch [OF a, of ex_join "''/home/project''" True] m(3) by simp
  have g: "artifacts (runAction_file ex_join ''/home/project'' ex_file_action False ex_store) =
      (artifacts ex_store)(messageId ex_file_action \<mapsto>
         Artifact (\<lparr>artifact_id = ''a1'', title = ''Todo  App'', closed = False, runner = []\<rparr>
         \<lparr>runner := [] @ [] @ [RunAction ex_file_action None]\<rparr>))"
    using runAction_dispatch [OF a, of ex_join "''/home/project''" False] m(3) c by auto
  have h: "runAction ex_join ''/home/project'' ex_shell_action True ex_store =
      (None, ex_store\<lparr>artifacts := (artifacts ex_store)(messageId ex_shell_action \<mapsto>
         Artifact (\<lparr>artifact_id = ''a1'', title = ''Todo  App'', closed = False, runner = []\<rparr>
         \<lparr>runner := [] @ [RunAction ex_shell_action None]\<rparr>))\<rparr>)"
    using runAction_dispatch [OF b, of ex_join "''/home/project''" True] m(4) by auto
  show ?thesis
    using a b m f by (simp add: g h)
qed

section \<open>Unsaved files\<close>

lemma map_of_setKey_same: "map_of (setKey fm p d) p = Some d"
  by (induction fm) auto

lemma map_of_setKey_other: "q \<noteq> p \<Longrightarrow> map_of (setKey fm p d) q = map_of fm q"
  by (induction fm) auto

lemma currentDocument_updateFile:
  "currentDocument s = Some d \<Longrightarrow>
   \<exists>d'. currentDocument (updateFile p c s) = Some d' \<and> filePath d' = filePath d"
  by (auto simp: currentDocument_def updateFile_def split: option.splits)

lemma unsavedFiles_updateFile: "unsavedFiles (updateFile p c s) = unsavedFiles s"
  by (simp add: updateFile_def split: option.splits)

text \<open>
  C8, as stated, at the store whose current document has the empty path: the files
  store holds the saved content \<open>a\<close> for that path, the new content \<open>b\<close> differs from it,
  and the path is not among the unsaved files after the call.
\<close>

theorem setCurrentDocumentContent_empty_path_counterexample:
  "currentDocument ex_empty_path_store = Some \<lparr>doc_value = ''a'', filePath = []\<rparr> \<and>
   getFile (files ex_empty_path_store) [] = Some (File ''a'' False) \<and>
   content (File ''a'' False) \<noteq> ''b'' \<and>
   [] \<notin> unsavedFiles (setCurrentDocumentContent ''b'' ex_empty_path_store)"
  by (simp add: ex_empty_path_store_def currentDocument_def setCurrentDocumentContent_def
      getFile_def)

text \<open>
  C8, amended. After \<open>setCurrentDocumentContent\<close> with a current document at a path
  that is not empty, the path is among the unsaved files exactly when the files store
  holds a saved content for it that differs from the new content; the membership of
  every other path is unchanged.
\<close>

theorem setCurrentDocumentContent_unsaved:
  assumes "currentDocument s = Some d" and "filePath d \<noteq> []"
  shows "(filePath d \<in> unsavedFiles (setCurrentDocumentContent c s) \<longleftrightarrow>
            (\<exists>f. getFile (files s) (filePath d) = Some f \<and> content f \<noteq> c)) \<and>
         (\<forall>q. q \<noteq> filePath d \<longrightarrow>
            (q \<in> unsavedFiles (setCurrentDocumentContent c s) \<longleftrightarrow> q \<in> unsavedFiles s))"
proof -
  obtain d' where d': "currentDocument (updateFile (filePath d) c s) = Some d'"
    "filePath d' = filePath d"
    using currentDocument_updateFile[OF assms(1)] by blast
  show ?thesis
    using assms d'
    by (auto simp: setCurrentDocumentContent_def Let_def unsavedFiles_updateFile)
qed

text \<open>C8, amended, on the example store: an edit marks the file, the saved text clears it.\<close>

theorem setCurrentDocumentContent_unsaved_witness:
  "currentDocument ex_store = Some \<lparr>doc_value = ''a'', filePath = ''/home/project/a.ts''\<rparr> \<and>
   filePath \<lparr>doc_value = ''a'', filePath = ''/home/project/a.ts''\<rparr> \<noteq> [] \<and>
   ''/home/project/a.ts'' \<in> unsavedFiles (setCurrentDocumentContent ''new'' ex_store) \<and>
   ''/home/project/a.ts'' \<notin> unsavedFiles (setCurrentDocumentContent ''a'' ex_store) \<and>
   ''/home/project/src/b.ts'' \<noteq> ''/home/project/a.ts'' \<and>
   ''/home/project/src/b.ts'' \<in> unsavedFiles (setCurrentDocumentContent ''new'' ex_store)"
proof -
  have a: "currentDocument ex_store = Some \<lparr>doc_value = ''a'', filePath = ''/home/project/a.ts''\<rparr>"
    by (simp add: ex_store_def currentDocument_def)
  have b: "filePath \<lparr>doc_value = ''a'', filePath = ''/home/project/a.ts''\<rparr> \<noteq> []"
    by simp
  have c: "getFile (files ex_store) ''/home/project/a.ts'' = Some (File ''a'' False)"
    "''/home/project/src/b.ts'' \<in> unsavedFiles ex_store"
    by (simp_all add: ex_store_def ex_files_def getFile_def)
  show ?thesis
    using a c setCurrentDocumentContent_unsaved [OF a b, of "''new''"]
      setCurrentDocumentContent_unsaved [OF a b, of "''a''"]
    by simp
qed

text \<open>
  C9. \<open>saveFile\<close> changes nothing when the editor has no document for the path.
  Otherwise the files store then holds the value of the document as a text file under
  the path, its other entries are as before, and the path is removed from the unsaved
  files. In both cases the membership of every other path in the unsaved files is
  unchanged.
\<close>

theorem saveFile_frame:
  "(documents s p = None \<longrightarrow> saveFile p s = s) \<and>
   (\<forall>d. documents s p = Some d \<longrightarrow>
      getFile (files (saveFile p s)) p = Some (File (doc_value d) False) \<and>
      (\<forall>q. q \<noteq> p \<longrightarrow> map_of (files (saveFile p s)) q = map_of (files s) q) \<and>
      unsavedFiles (saveFile p s) = unsavedFiles s - {p} \<and>
      saveFile p s = s\<lparr>files := files (saveFile p s), unsavedFiles := unsavedFiles s - {p}\<rparr>) \<and>
   (\<forall>q. q \<noteq> p \<longrightarrow> (q \<in> unsavedFiles (saveFile p s) \<longleftrightarrow> q \<in> unsavedFiles s))"
  by (auto simp: saveFile_def files_saveFile_def getFile_def map_of_setKey_same map_of_setKey_other
      split: option.splits)

text \<open>C9, saving the open document of the example store and a path without document.\<close>

theorem saveFile_frame_witness:
  "documents ex_store ''/home/project/zz'' = None \<and>
   saveFile ''/home/project/zz'' ex_store = ex_store \<and>
   documents ex_store ''/home/project/a.ts'' =
     Some \<lparr>doc_value = ''a'', filePath = ''/home/project/a.ts''\<rparr> \<and>
   getFile (files (saveFile ''/home/project/a.ts'' ex_store)) ''/home/project/a.ts'' =
     Some (File ''a'' False) \<and>
   ''/home/project/src/b.ts'' \<noteq> ''/home/project/a.ts'' \<and>
   ''/home/project/src/b.ts'' \<in> unsavedFiles (saveFile ''/home/project/a.ts'' ex_store)"
proof -
  have a: "documents ex_store ''/home/project/zz'' = None"
    "documents ex_store ''/home/project/a.ts'' =
       Some \<lparr>doc_value = ''a'', filePath = ''/home/project/a.ts''\<rparr>"
    "''/home/project/src/b.ts'' \<in> unsavedFiles ex_store"
    by (simp_all add: ex_store_def)
  show ?thesis
    using a saveFile_frame [of ex_store "''/home/project/zz''"]
      saveFile_frame [of ex_store "''/home/project/a.ts''"]
    by simp
qed

section \<open>Synchronising to a directory\<close>

lemma str_split_nonempty: "str_split c s \<noteq> []"
  by (induction s) (auto split: list.splits)

lemma str_split_no_sep: "seg \<in> set (str_split c s) \<Longrightarrow> c \<notin> set seg"
  by (induction s arbitrary: seg) (auto split: list.splits if_splits)

lemma str_split_join:
  "concat (map (\<lambda>n. n @ [c]) (butlast (str_split c s))) @ last (str_split c s) = s"
  by (induction s) (auto split: list.splits simp: str_split_nonempty)

lemma granted_append:
  "granted target made (xs @ ys) \<longleftrightarrow>
     granted target made xs \<and> granted target (made @ xs) ys"
  by (induction xs arbitrary: made) auto

lemma await_calls_granted:
  "granted target calls cs \<Longrightarrow> await_calls target cs calls = (None, calls @ cs)"
  by (induction cs arbitrary: calls) auto

lemma dir_calls_shift:
  "map (\<lambda>i. GetDirectoryHandle (h @ take i (n # ns)) ((n # ns) ! i)) [0..<length (n # ns)] =
   GetDirectoryHandle h n #
     map (\<lambda>i. GetDirectoryHandle ((h @ [n]) @ take i ns) (ns ! i)) [0..<length ns]"
proof -
  have "[0..<length (n # ns)] = 0 # map Suc [0..<length ns]"
    by (simp add: upt_conv_Cons map_Suc_upt del: upt_Suc)
  then show ?thesis by (simp add: comp_def del: upt_Suc)
qed

lemma descend_eq:
  "granted target calls
     (map (\<lambda>i. GetDirectoryHandle (h @ take i ns) (ns ! i)) [0..<length ns]) \<Longrightarrow>
   descend target ns h calls =
     (None, h @ ns,
      calls @ map (\<lambda>i. GetDirectoryHandle (h @ take i ns) (ns ! i)) [0..<length ns])"
proof (induction ns arbitrary: h calls)
  case Nil
  then show ?case by simp
next
  case (Cons n ns)
  from Cons.prems have g: "target calls (GetDirectoryHandle h n) = None"
    and r: "granted target (calls @ [GetDirectoryHandle h n])
        (map (\<lambda>i. GetDirectoryHandle ((h @ [n]) @ take i ns) (ns ! i)) [0..<length ns])"
    unfolding dir_calls_shift by simp_all
  show ?case
    unfolding dir_calls_shift using g Cons.IH[OF r] by simp
qed

lemma text_entries_Cons:
  "text_entries ((p, d) # fm) =
     (case textContent d of None \<Rightarrow> text_entries fm | Some c \<Rightarrow> (p, c) # text_entries fm)"
  by (simp add: text_entries_def split: option.splits)

lemma text_entries_Nil: "text_entries [] = []"
  by (simp add: text_entries_def)

lemma syncFiles_loop_eq:
  "granted target calls (concat (map entry_calls (text_entries fm))) \<Longrightarrow>
   syncFiles_loop target fm (calls, synced) =
     (calls @ concat (map entry_calls (text_entries fm)),
      Inr (synced @ map (relativePath \<circ> fst) (text_entries fm)))"
proof (induction fm arbitrary: calls synced)
  case Nil
  then show ?case by (simp add: text_entries_Nil)
next
  case (Cons e fm)
  obtain p d where e: "e = (p, d)" by (cases e)
  show ?case
  proof (cases "textContent d")
    case None
    then show ?thesis using Cons e by (simp add: text_entries_Cons)
  next
    case (Some c)
    define h where "h = butlast (segments p)"
    define n where "n = last (segments p)"
    define fc where "fc = [GetFileHandle h n, CreateWritable h n, Write h n c, Close h n]"
    have ec: "entry_calls (p, c) = dir_calls h @ fc"
      by (simp add: entry_calls_def Let_def h_def n_def fc_def)
    have te: "text_entries (e # fm) = (p, c) # text_entries fm"
      using Some by (simp add: e text_entries_Cons)
    from Cons.prems have g1: "granted target calls (dir_calls h)"
      and g2: "granted target (calls @ dir_calls h) fc"
      and g3: "granted target (calls @ dir_calls h @ fc)
                 (concat (map entry_calls (text_entries fm)))"
      by (simp_all add: te ec granted_append)
    have d: "descend target h [] calls = (None, h, calls @ dir_calls h)"
      using descend_eq[of target calls "[]" h] g1 by (simp add: dir_calls_def)
    have a: "await_calls target fc (calls @ dir_calls h) = (None, calls @ dir_calls h @ fc)"
      using await_calls_granted[OF g2] by simp
    have "syncFiles_loop target (e # fm) (calls, synced) =
          syncFiles_loop target fm (calls @ dir_calls h @ fc, synced @ [relativePath p])"
      using Some d a[unfolded fc_def]
      by (simp add: e Let_def h_def[unfolded segments_def, symmetric]
          n_def[unfolded segments_def, symmetric] fc_def del: await_calls.simps)
    then show ?thesis
      using Cons.IH[OF g3] by (simp add: te ec)
  qed
qed

lemma granted_standard:
  "granted standard_target made cs \<longleftrightarrow> (\<forall>c\<in>set cs. standard_target [] c = None)"
proof (induction cs arbitrary: made)
  case Nil
  then show ?case by simp
next
  case (Cons c cs)
  have "standard_target made c = standard_target [] c"
    by (cases c) simp_all
  then show ?case using Cons by simp
qed

lemma valid_paths_granted:
  assumes "valid_paths fm"
  shows "granted standard_target [] (concat (map entry_calls (text_entries fm)))"
proof -
  have "standard_target [] c = None"
    if e: "e \<in> set (text_entries fm)" and c: "c \<in> set (entry_calls e)" for e c
  proof -
    have v: "\<forall>n\<in>set (segments (fst e)). valid_name n"
      using assms e by (auto simp: valid_paths_def)
    have ne: "segments (fst e) \<noteq> []" by (simp add: segments_def str_split_nonempty)
    have l: "valid_name (last (segments (fst e)))" using v ne by simp
    have b: "\<forall>n\<in>set (butlast (segments (fst e))). valid_name n"
      using v by (meson in_set_butlastD)
    from c consider "c \<in> set (dir_calls (butlast (segments (fst e))))"
      | "c \<in> {GetFileHandle (butlast (segments (fst e))) (last (segments (fst e))),
              CreateWritable (butlast (segments (fst e))) (last (segments (fst e))),
              Write (butlast (segments (fst e))) (last (segments (fst e))) (snd e),
              Close (butlast (segments (fst e))) (last (segments (fst e)))}"
      by (auto simp: entry_calls_def Let_def)
    then show ?thesis
    proof cases
      case 1
      then obtain i where "i < length (butlast (segments (fst e)))"
        "c = GetDirectoryHandle (take i (butlast (segments (fst e))))
               (butlast (segments (fst e)) ! i)"
        by (auto simp: dir_calls_def)
      then show ?thesis using b by (simp del: length_butlast)
    next
      case 2
      then show ?thesis using l by auto
    qed
  qed
  then show ?thesis by (auto simp: granted_standard)
qed

lemma map_filter_append: "List.map_filter f (xs @ ys) = List.map_filter f xs @ List.map_filter f ys"
  by (simp add: List.map_filter_def)

lemma map_filter_concat: "List.map_filter f (concat xss) = concat (map (List.map_filter f) xss)"
  by (induction xss) (simp_all add: map_filter_append)

lemma dirname_butlast_last: "dirname (butlast (segments p)) @ last (segments p) = relativePath p"
  using str_split_join[of "CHR ''/''" "relativePath p"] by (simp add: dirname_def segments_def)

lemma written_dir_calls: "List.map_filter written (dir_calls ns) = []"
  by (simp add: dir_calls_def List.map_filter_def)

lemma written_entry_calls:
  "List.map_filter written (entry_calls e) = [(relativePath (fst e), snd e)]"
  by (simp add: entry_calls_def Let_def map_filter_append written_dir_calls dirname_butlast_last)

lemma textContent_is_text_file: "textContent d \<noteq> None \<longleftrightarrow> is_text_file d"
  by (cases d rule: textContent.cases) (simp_all add: is_text_file_def)

lemma text_entries_paths: "map fst (text_entries fm) = map fst (filter (is_text_file \<circ> snd) fm)"
proof (induction fm)
  case Nil
  then show ?case by (simp add: text_entries_Nil)
next
  case (Cons e fm)
  then show ?case
    using textContent_is_text_file[of "snd e"]
    by (cases e) (auto simp: text_entries_Cons split: option.splits)
qed

lemma text_entries_set:
  "set (text_entries fm) = {(p, c). (p, Some (File c False)) \<in> set fm}"
proof (induction fm)
  case Nil
  then show ?case by (simp add: text_entries_Nil)
next
  case (Cons a fm)
  obtain p d where a: "a = (p, d)" by (cases a)
  show ?case
    using Cons by (cases d rule: textContent.cases) (auto simp: a text_entries_Cons)
qed

lemma relativePath_strip: "relativePath (''/home/project/'' @ q) = q"
  by (simp add: relativePath_def)

lemma relativePath_keep: "(\<And>q. p \<noteq> ''/home/project/'' @ q) \<Longrightarrow> relativePath p = p"
proof -
  assume a: "\<And>q. p \<noteq> ''/home/project/'' @ q"
  have "take 14 p \<noteq> ''/home/project/''"
  proof
    assume "take 14 p = ''/home/project/''"
    then have "p = ''/home/project/'' @ drop 14 p"
      by (metis append_take_drop_id)
    with a show False by blast
  qed
  then show ?thesis by (simp add: relativePath_def)
qed

text \<open>
  C5, as stated, at a files store whose only text file is \<open>/home/project/a//b\<close> and a
  target that rejects the calls that the standard rejects: the second segment of the
  relative path is empty, \<open>getDirectoryHandle\<close> rejects the empty name, and
  \<open>syncFiles\<close> ends with that error: it returns no list and writes nothing.
\<close>

theorem syncFiles_empty_name_counterexample:
  "text_entries (files ex_gap_store) = [(''/home/project/a//b'', ''x'')] \<and>
   is_text_file (Some (File ''x'' False)) \<and>
   segments ''/home/project/a//b'' = [''a'', [], ''b''] \<and>
   standard_target [GetDirectoryHandle [] ''a''] (GetDirectoryHandle [''a''] []) = Some TypeError \<and>
   syncFiles standard_target ex_gap_store =
     ([GetDirectoryHandle [] ''a'', GetDirectoryHandle [''a''] []], Inl TypeError) \<and>
   List.map_filter written (fst (syncFiles standard_target ex_gap_store)) = []"
  by code_simp

text \<open>
  C5, amended. When the target grants every call that the text files of the files store
  require, \<open>syncFiles\<close> returns the relative paths of the entries that are text files,
  in the order of the file map. Its calls on the target are, entry by entry, those that
  open or create the leading directories and the file and write the content; the
  writes are exactly one per such entry, at the relative path and with the content of
  the entry, so nothing is written for a binary file or a folder. The relative path is
  the path without a leading \<open>/home/project/\<close>, and its segments are the parts between
  the slashes. A target that rejects only what the standard rejects grants these calls
  when every segment is a valid file name.
\<close>

theorem syncFiles_result:
  assumes "granted target [] (concat (map entry_calls (text_entries (files s))))"
  shows "snd (syncFiles target s) =
           Inr (map (relativePath \<circ> fst) (filter (is_text_file \<circ> snd) (files s))) \<and>
         fst (syncFiles target s) = concat (map entry_calls (text_entries (files s))) \<and>
         List.map_filter written (fst (syncFiles target s)) =
           map (\<lambda>e. (relativePath (fst e), snd e)) (text_entries (files s)) \<and>
         set (text_entries (files s)) = {(p, c). (p, Some (File c False)) \<in> set (files s)} \<and>
         (\<forall>q. relativePath (''/home/project/'' @ q) = q) \<and>
         (\<forall>p. (\<forall>q. p \<noteq> ''/home/project/'' @ q) \<longrightarrow> relativePath p = p) \<and>
         (\<forall>p. segments p \<noteq> [] \<and> (\<forall>n\<in>set (segments p). CHR ''/'' \<notin> set n) \<and>
              dirname (butlast (segments p)) @ last (segments p) = relativePath p) \<and>
         (valid_paths (files s) \<longrightarrow>
            granted standard_target [] (concat (map entry_calls (text_entries (files s)))))"
proof -
  have w: "concat (map (List.map_filter written \<circ> entry_calls) es) =
        map (\<lambda>e. (relativePath (fst e), snd e)) es" for es
    by (induction es) (simp_all add: written_entry_calls)
  have m: "map (relativePath \<circ> fst) (text_entries (files s)) =
      map (relativePath \<circ> fst) (filter (is_text_file \<circ> snd) (files s))"
    using text_entries_paths[of "files s"] by (metis map_map)
  have l: "syncFiles target s =
      (concat (map entry_calls (text_entries (files s))),
       Inr (map (relativePath \<circ> fst) (text_entries (files s))))"
    using syncFiles_loop_eq[OF assms[simplified], of "[]"] assms
    by (simp add: syncFiles_def syncFiles_loop_eq)
  have g: "segments p \<noteq> [] \<and> (\<forall>n\<in>set (segments p). CHR ''/'' \<notin> set n) \<and>
              dirname (butlast (segments p)) @ last (segments p) = relativePath p" for p
    using str_split_no_sep[of _ "CHR ''/''" "relativePath p"]
    by (auto simp: segments_def str_split_nonempty dirname_butlast_last[unfolded segments_def])
  show ?thesis
    using w m text_entries_set[of "files s"] relativePath_strip relativePath_keep g
      valid_paths_granted[of "files s"]
    by (simp add: l map_filter_concat)
qed

text \<open>
  C5, amended, on the example store, which has two text files, a binary file and a
  folder, and a target that rejects only what the standard rejects: the calls and the
  returned list in full.
\<close>

theorem syncFiles_result_witness:
  "granted standard_target [] (concat (map entry_calls (text_entries (files ex_store)))) \<and>
   valid_paths (files ex_store) \<and>
   syncFiles standard_target ex_store =
     ([GetFileHandle [] ''a.ts'', CreateWritable [] ''a.ts'', Write [] ''a.ts'' ''a'',
       Close [] ''a.ts'', GetDirectoryHandle [] ''src'', GetFileHandle [''src''] ''b.ts'',
       CreateWritable [''src''] ''b.ts'', Write [''src''] ''b.ts'' ''b'',
       Close [''src''] ''b.ts''],
      Inr [''a.ts'', ''src/b.ts'']) \<and>
   List.map_filter written (fst (syncFiles standard_target ex_store)) =
     [(''a.ts'', ''a''), (''src/b.ts'', ''b'')] \<and>
   (''/home/project/img.png'', Some (File [] True)) \<in> set (files ex_store) \<and>
   ''/home/project/zz'' \<noteq> ''/home/project/'' @ ''a.ts'' \<and>
   segments ''/home/project/src/b.ts'' = [''src'', ''b.ts'']"
proof -
  have h: "granted standard_target [] (concat (map entry_calls (text_entries (files ex_store))))"
    by code_simp
  have v: "valid_paths (files ex_store)" by code_simp
  have r: "Inr (map (relativePath \<circ> fst) (filter (is_text_file \<circ> snd) (files ex_store))) =
        (Inr [''a.ts'', ''src/b.ts''] :: error + string list)"
    "concat (map entry_calls (text_entries (files ex_store))) =
       [GetFileHandle [] ''a.ts'', CreateWritable [] ''a.ts'', Write [] ''a.ts'' ''a'',
        Close [] ''a.ts'', GetDirectoryHandle [] ''src'', GetFileHandle [''src''] ''b.ts'',
        CreateWritable [''src''] ''b.ts'', Write [''src''] ''b.ts'' ''b'',
        Close [''src''] ''b.ts'']"
    "map (\<lambda>e. (relativePath (fst e), snd e)) (text_entries (files ex_store)) =
       [(''a.ts'', ''a''), (''src/b.ts'', ''b'')]"
    "(''/home/project/img.png'', Some (File [] True)) \<in> set (files ex_store)"
    "segments ''/home/project/src/b.ts'' = [''src'', ''b.ts'']"
    by code_simp+
  note t = syncFiles_result[OF h]
  note t1 = t[THEN conjunct1]
  note t2 = t[THEN conjunct2, THEN conjunct1]
  note t3 = t[THEN conjunct2, THEN conjunct2, THEN conjunct1]
  have "syncFiles standard_target ex_store =
     ([GetFileHandle [] ''a.ts'', CreateWritable [] ''a.ts'', Write [] ''a.ts'' ''a'',
       Close [] ''a.ts'', GetDirectoryHandle [] ''src'', GetFileHandle [''src''] ''b.ts'',
       CreateWritable [''src''] ''b.ts'', Write [''src''] ''b.ts'' ''b'',
       Close [''src''] ''b.ts''],
      Inr [''a.ts'', ''src/b.ts''])"
    using t1 t2 r(1,2) by (intro prod_eqI) simp_all
  moreover have "List.map_filter written (fst (syncFiles standard_target ex_store)) =
      [(''a.ts'', ''a''), (''src/b.ts'', ''b'')]"
    using t3 r(3) by (simp only:)
  ultimately show ?thesis using h v r(4,5) by simp
qed

section \<open>The downloaded archive\<close>

lemma lastIndexOf_append:
  assumes "c \<notin> set n"
  shows "lastIndexOf c (xs @ c # n) = Some (length xs)"
proof -
  have "takeWhile (\<lambda>x. x \<noteq> c) (rev n @ c # rev xs) = rev n"
  proof -
    have t: "(\<forall>x\<in>set ys. x \<noteq> c) \<Longrightarrow> takeWhile (\<lambda>x. x \<noteq> c) (ys @ c # zs) = ys" for ys zs
      by (induction ys) auto
    have "\<forall>x\<in>set (rev n). x \<noteq> c" using assms by auto
    from t[OF this] show ?thesis .
  qed
  then show ?thesis by (simp add: lastIndexOf_def)
qed

lemma lastIndexOf_none: "c \<notin> set p \<Longrightarrow> lastIndexOf c p = None"
  by (simp add: lastIndexOf_def)

lemma good_seg_last: "good_seg n \<Longrightarrow> last n \<noteq> CHR ''/''"
  unfolding good_seg_def by (metis last_in_set)

lemma good_root_cases:
  assumes "good_root r"
  obtains "r = []" | r' where "r = r' @ ''/''" "r' \<noteq> []" "last r' \<noteq> CHR ''/''"
  using assms unfolding good_root_def
  by (metis append_butlast_last_id list.discI last_snoc butlast_snoc snoc_eq_iff_butlast)

lemma parentFolder_plain:
  assumes "good_root r" "good_seg n"
  shows "parentFolder (r @ n) = butlast r"
proof (cases rule: good_root_cases[OF assms(1)])
  case 1
  then show ?thesis using assms(2) good_seg_last[OF assms(2)]
    by (simp add: parentFolder_def good_seg_def lastIndexOf_none Let_def)
next
  case (2 r')
  have l: "last (r' @ CHR ''/'' # n) \<noteq> CHR ''/''"
    using assms(2) good_seg_last[OF assms(2)] by (auto simp: good_seg_def)
  have "lastIndexOf CHR ''/'' (r' @ CHR ''/'' # n) = Some (length r')"
    using assms(2) by (simp add: lastIndexOf_append good_seg_def)
  then show ?thesis using 2 l
    by (simp add: parentFolder_def Let_def)
qed

lemma parentFolder_slash:
  assumes "good_root r" "good_seg n"
  shows "parentFolder (r @ n @ ''/'') = butlast r"
proof -
  have "parentFolder (r @ n @ ''/'') = parentFolder (r @ n)"
    using assms(2) good_seg_last[OF assms(2)]
    by (simp add: parentFolder_def Let_def good_seg_def butlast_append)
  then show ?thesis using parentFolder_plain[OF assms] by simp
qed

lemma forceTrailingSlash_butlast:
  "good_root r \<Longrightarrow> r \<noteq> [] \<Longrightarrow> forceTrailingSlash (butlast r) = r"
  by (auto simp: good_root_def forceTrailingSlash_def) (metis append_butlast_last_id)

lemma good_root_extend: "good_root r \<Longrightarrow> good_seg n \<Longrightarrow> good_root (r @ n @ ''/'')"
  using good_seg_last[of n] by (auto simp: good_root_def good_seg_def butlast_append)

lemma fileAdd_file:
  assumes "good_root r" "good_seg n" "r = [] \<or> map_of fs r \<noteq> None"
  shows "fileAdd (r @ n) (ZFile d) fs = setKey fs (r @ n) (ZFile d)"
proof (cases "r = []")
  case True
  then show ?thesis using parentFolder_plain[OF assms(1,2)]
    by (subst fileAdd.simps) (simp add: Let_def)
next
  case False
  then show ?thesis
    using assms(3) parentFolder_plain[OF assms(1,2)] forceTrailingSlash_butlast[OF assms(1) False]
    by (subst fileAdd.simps) (auto simp: Let_def)
qed

lemma fileAdd_dir:
  assumes "good_root r" "good_seg n" "r = [] \<or> map_of fs r \<noteq> None"
  shows "fileAdd (r @ n @ ''/'') ZDir fs = setKey fs (r @ n @ ''/'') ZDir"
proof -
  have f: "forceTrailingSlash (x @ ''/'') = x @ ''/''"
    "forceTrailingSlash (y @ x @ ''/'') = y @ x @ ''/''" for x y
    by (simp_all add: forceTrailingSlash_def)
  show ?thesis
  proof (cases "r = []")
    case True
    then show ?thesis using parentFolder_slash[OF assms(1,2)]
      by (subst fileAdd.simps) (simp add: Let_def f)
  next
    case False
    then show ?thesis
      using assms(3) parentFolder_slash[OF assms(1,2)] forceTrailingSlash_butlast[OF assms(1) False]
      by (subst fileAdd.simps) (auto simp: Let_def f)
  qed
qed

lemma zip_folder_good:
  assumes "good_root r" "good_seg n" "r = [] \<or> map_of fs r \<noteq> None"
  shows "zip_folder n r fs =
           (r @ n @ ''/'',
            if map_of fs (r @ n @ ''/'') \<noteq> None then fs else setKey fs (r @ n @ ''/'') ZDir)"
proof -
  have f: "forceTrailingSlash (r @ n) = r @ n @ ''/''"
    using assms(2) good_seg_last[OF assms(2)] by (auto simp: forceTrailingSlash_def good_seg_def)
  show ?thesis
    using assms(2) fileAdd_dir[OF assms]
    by (auto simp: zip_folder_def folderAdd_def Let_def f good_seg_def)
qed


lemma map_of_setKey: "map_of (setKey fm p d) q = (if q = p then Some d else map_of fm q)"
  by (simp add: map_of_setKey_same map_of_setKey_other)

lemma set_setKey_fst: "set (map fst (setKey fm p d)) = insert p (set (map fst fm))"
proof (induction fm)
  case Nil
  then show ?case by simp
next
  case (Cons a fm)
  obtain q e where a: "a = (q, e)" by (cases a)
  show ?case
  proof (cases "q = p")
    case True
    then show ?thesis by (simp add: a)
  next
    case False
    then have "set (map fst (setKey (a # fm) p d)) = insert q (set (map fst (setKey fm p d)))"
      by (simp add: a)
    also have "\<dots> = insert q (insert p (set (map fst fm)))"
      by (simp only: Cons.IH)
    finally show ?thesis by (auto simp: a)
  qed
qed

lemma distinct_setKey: "distinct (map fst fm) \<Longrightarrow> distinct (map fst (setKey fm p d))"
proof (induction fm)
  case Nil
  then show ?case by simp
next
  case (Cons a fm)
  then show ?case using set_setKey_fst[of fm p d] by (cases a) auto
qed

lemma dirname_Cons: "dirname (n # ns) = n @ ''/'' @ dirname ns"
  by (simp add: dirname_def)

lemma good_root_dirname:
  "good_root r \<Longrightarrow> \<forall>n\<in>set ns. good_seg n \<Longrightarrow> good_root (r @ dirname ns)"
proof (induction ns arbitrary: r)
  case Nil
  then show ?case by (simp add: dirname_def)
next
  case (Cons n ns)
  have "good_root ((r @ n @ ''/'') @ dirname ns)"
    using Cons.prems by (intro Cons.IH good_root_extend) auto
  then show ?case by (simp add: dirname_Cons)
qed

lemma dir_names_last: "ns \<noteq> [] \<Longrightarrow> r @ dirname ns \<in> set (dir_names r ns)"
proof (induction ns arbitrary: r)
  case Nil
  then show ?case by simp
next
  case (Cons n ns)
  show ?case
  proof (cases "ns = []")
    case True
    then show ?thesis by (simp add: dirname_def)
  next
    case False
    from Cons.IH[OF False, of "r @ n @ ''/''"] show ?thesis by (simp add: dirname_Cons)
  qed
qed

lemma folders_good:
  assumes "good_root r" "\<forall>n\<in>set ns. good_seg n" "r = [] \<or> map_of fs r \<noteq> None"
  shows "fst (folders ns r fs) = r @ dirname ns \<and>
         (\<forall>x. map_of (snd (folders ns r fs)) x =
            (if map_of fs x \<noteq> None then map_of fs x
             else if x \<in> set (dir_names r ns) then Some ZDir else None))"
  using assms
proof (induction ns arbitrary: r fs)
  case Nil
  then show ?case by (simp add: dirname_def)
next
  case (Cons n ns)
  define fs1 where "fs1 = (if map_of fs (r @ n @ ''/'') \<noteq> None then fs else setKey fs (r @ n @ ''/'') ZDir)"
  have n: "good_seg n" using Cons.prems(2) by simp
  have z: "zip_folder n r fs = (r @ n @ ''/'', fs1)"
    using zip_folder_good[OF Cons.prems(1) n Cons.prems(3)] by (simp add: fs1_def)
  have m: "map_of fs1 x = (if map_of fs x \<noteq> None then map_of fs x
                           else if x = r @ n @ ''/'' then Some ZDir else None)" for x
    by (auto simp: fs1_def map_of_setKey)
  have e: "map_of fs1 (r @ n @ ''/'') \<noteq> None"
    by (simp add: m)
  have ih: "fst (folders ns (r @ n @ ''/'') fs1) = (r @ n @ ''/'') @ dirname ns \<and>
         (\<forall>x. map_of (snd (folders ns (r @ n @ ''/'') fs1)) x =
            (if map_of fs1 x \<noteq> None then map_of fs1 x
             else if x \<in> set (dir_names (r @ n @ ''/'') ns) then Some ZDir else None))"
    using Cons.prems(2) e by (intro Cons.IH good_root_extend[OF Cons.prems(1) n]) auto
  show ?case
    using ih by (auto simp: z m dirname_Cons)
qed

lemma zip_add_good:
  assumes "good_root base" "base = [] \<or> map_of fs base \<noteq> None" "\<forall>n\<in>set (segments p). good_seg n"
  shows "map_of (zip_add base p c fs) x =
           (if x = base @ relativePath p then Some (ZFile (Text c))
            else if map_of fs x \<noteq> None then map_of fs x
            else if x \<in> set (zip_dirs base p) then Some ZDir else None)"
proof -
  have ne: "segments p \<noteq> []" by (simp add: segments_def str_split_nonempty)
  have l: "good_seg (last (segments p))" using assms(3) ne by simp
  have b: "\<forall>n\<in>set (butlast (segments p)). good_seg n"
    using assms(3) by (meson in_set_butlastD)
  show ?thesis
  proof (cases "1 < length (segments p)")
    case True
    then have bne: "butlast (segments p) \<noteq> []"
      by (cases "segments p" rule: rev_cases) auto
    obtain r fs1 where f: "folders (butlast (segments p)) base fs = (r, fs1)"
      by (cases "folders (butlast (segments p)) base fs")
    from folders_good[OF assms(1) b assms(2)] f
    have r: "r = base @ dirname (butlast (segments p))"
      and m: "\<And>x. map_of fs1 x = (if map_of fs x \<noteq> None then map_of fs x
             else if x \<in> set (dir_names base (butlast (segments p))) then Some ZDir else None)"
      by auto
    have gr: "good_root r" unfolding r by (rule good_root_dirname[OF assms(1) b])
    have ex: "map_of fs1 r \<noteq> None"
      using dir_names_last[OF bne, of base] by (simp add: m r)
    have "zip_add base p c fs = setKey fs1 (r @ last (segments p)) (ZFile (Text c))"
      using True f fileAdd_file[OF gr l, of fs1] ex
      by (simp add: zip_add_def Let_def zip_file_def segments_def)
    moreover have "r @ last (segments p) = base @ relativePath p"
      using dirname_butlast_last[of p] by (simp add: r)
    ultimately show ?thesis
      by (simp add: map_of_setKey m zip_dirs_def)
  next
    case False
    then obtain n where n: "segments p = [n]"
      using ne by (cases "segments p") auto
    then have rel: "relativePath p = n"
      using dirname_butlast_last[of p] by (simp add: dirname_def)
    have "zip_add base p c fs = setKey fs (base @ n) (ZFile (Text c))"
      using False n rel l fileAdd_file[OF assms(1) _ assms(2), of n]
      by (simp add: zip_add_def Let_def zip_file_def segments_def)
    then show ?thesis
      by (simp add: map_of_setKey zip_dirs_def n rel)
  qed
qed


lemma plain_paths_Cons:
  "plain_paths ((p, d) # fm) \<longleftrightarrow>
     (textContent d \<noteq> None \<longrightarrow> [] \<notin> set (segments p)) \<and> plain_paths fm"
  by (auto simp: plain_paths_def text_entries_Cons split: option.splits)

lemma plain_good_segs: "[] \<notin> set (segments p) \<Longrightarrow> \<forall>n\<in>set (segments p). good_seg n"
  using str_split_no_sep[of _ "CHR ''/''" "relativePath p"]
  by (auto simp: good_seg_def segments_def)

lemma zip_loop_good:
  assumes "good_root base" "base = [] \<or> map_of fs base \<noteq> None" "plain_paths fm"
  shows "map_of (zip_loop base fm fs) x =
     (case map_of (rev (map (\<lambda>e. (base @ relativePath (fst e), ZFile (Text (snd e))))
                        (text_entries fm))) x of
        Some v \<Rightarrow> Some v
      | None \<Rightarrow>
          if map_of fs x \<noteq> None then map_of fs x
          else if x \<in> (\<Union>e\<in>set (text_entries fm). set (zip_dirs base (fst e))) then Some ZDir
          else None)"
  using assms
proof (induction fm arbitrary: fs)
  case Nil
  then show ?case by (simp add: text_entries_Nil)
next
  case (Cons a fm)
  obtain p d where a: "a = (p, d)" by (cases a)
  have pl: "plain_paths fm" using Cons.prems(3) by (simp add: a plain_paths_Cons)
  show ?case
  proof (cases "textContent d")
    case None
    then have "zip_loop base (a # fm) fs = zip_loop base fm fs"
      and "text_entries (a # fm) = text_entries fm"
      by (simp_all add: a text_entries_Cons)
    then show ?thesis
      using Cons.IH[OF Cons.prems(1,2) pl] by (simp only:)
  next
    case (Some c)
    have g: "\<forall>n\<in>set (segments p). good_seg n"
      using Cons.prems(3) Some by (intro plain_good_segs) (simp add: a plain_paths_Cons)
    note za = zip_add_good[OF Cons.prems(1,2) g, of c]
    have ex: "base = [] \<or> map_of (zip_add base p c fs) base \<noteq> None"
      using Cons.prems(2) by (auto simp: za)
    have ih: "map_of (zip_loop base fm (zip_add base p c fs)) x =
     (case map_of (rev (map (\<lambda>e. (base @ relativePath (fst e), ZFile (Text (snd e))))
                        (text_entries fm))) x of
        Some v \<Rightarrow> Some v
      | None \<Rightarrow>
          if map_of (zip_add base p c fs) x \<noteq> None then map_of (zip_add base p c fs) x
          else if x \<in> (\<Union>e\<in>set (text_entries fm). set (zip_dirs base (fst e))) then Some ZDir
          else None)"
      by (rule Cons.IH[OF Cons.prems(1) ex pl])
    define M where "M = map_of (rev (map (\<lambda>e. (base @ relativePath (fst e), ZFile (Text (snd e))))
                        (text_entries fm))) x"
    have r: "map_of (rev (map (\<lambda>e. (base @ relativePath (fst e), ZFile (Text (snd e))))
                        (text_entries (a # fm)))) x =
             (case M of Some v \<Rightarrow> Some v
              | None \<Rightarrow> if x = base @ relativePath p then Some (ZFile (Text c)) else None)"
      using Some by (simp add: a text_entries_Cons M_def map_add_def split: option.splits)
    have u: "(\<Union>e\<in>set (text_entries (a # fm)). set (zip_dirs base (fst e))) =
             set (zip_dirs base p) \<union> (\<Union>e\<in>set (text_entries fm). set (zip_dirs base (fst e)))"
      using Some by (simp add: a text_entries_Cons)
    have l: "zip_loop base (a # fm) fs = zip_loop base fm (zip_add base p c fs)"
      using Some by (simp add: a)
    show ?thesis
    proof (cases M)
      case None
      then show ?thesis
        unfolding l r u using ih[folded M_def] by (auto simp: za)
    next
      case (Some v)
      then show ?thesis
        unfolding l r u using ih[folded M_def] by simp
    qed
  qed
qed

lemma distinct_fileAdd: "distinct (map fst fs) \<Longrightarrow> distinct (map fst (fileAdd name e fs))"
proof (induction name e fs rule: fileAdd.induct)
  case (1 name e fs)
  show ?case
    using 1 by (subst fileAdd.simps) (auto simp: Let_def distinct_setKey)
qed

lemma distinct_zip_folder:
  "distinct (map fst fs) \<Longrightarrow> distinct (map fst (snd (zip_folder n r fs)))"
  by (simp add: zip_folder_def folderAdd_def Let_def distinct_fileAdd)

lemma distinct_folders:
  "distinct (map fst fs) \<Longrightarrow> distinct (map fst (snd (folders ns r fs)))"
proof (induction ns arbitrary: r fs)
  case Nil
  then show ?case by simp
next
  case (Cons n ns)
  obtain r1 fs1 where z: "zip_folder n r fs = (r1, fs1)" by (cases "zip_folder n r fs")
  then have "distinct (map fst fs1)"
    using distinct_zip_folder[OF Cons.prems, of n r] by simp
  then show ?case using Cons.IH[of fs1 r1] by (simp add: z)
qed

lemma distinct_zip_add:
  "distinct (map fst fs) \<Longrightarrow> distinct (map fst (zip_add base p c fs))"
  using distinct_folders[of fs "butlast (str_split CHR ''/'' (relativePath p))" base]
  by (auto simp: zip_add_def Let_def zip_file_def distinct_fileAdd split: prod.splits)

lemma distinct_zip_loop:
  "distinct (map fst fs) \<Longrightarrow> distinct (map fst (zip_loop base fm fs))"
proof (induction fm arbitrary: fs)
  case Nil
  then show ?case by simp
next
  case (Cons a fm)
  then show ?case by (cases a) (auto simp: distinct_zip_add split: option.splits)
qed

lemma dir_names_slash: "n \<in> set (dir_names r ns) \<Longrightarrow> n \<noteq> [] \<and> last n = CHR ''/''"
  by (induction ns arbitrary: r) auto

lemma plain_last: 
  assumes "[] \<notin> set (segments p)"
  shows "relativePath p \<noteq> [] \<and> last (relativePath p) \<noteq> CHR ''/''"
proof -
  have ne: "segments p \<noteq> []" by (simp add: segments_def str_split_nonempty)
  then have "good_seg (last (segments p))" using plain_good_segs[OF assms] by simp
  then have "last (segments p) \<noteq> []" "last (last (segments p)) \<noteq> CHR ''/''"
    using good_seg_last by (auto simp: good_seg_def)
  then show ?thesis using dirname_butlast_last[of p]
    by (metis append_is_Nil_conv last_appendR)
qed

lemma plain_rel_no_dir:
  assumes "plain_paths fm" "e \<in> set (text_entries fm)"
  shows "base @ relativePath (fst e) \<notin> set (dir_names r ns)"
    and "base @ relativePath (fst e) \<noteq> base"
proof -
  have "[] \<notin> set (segments (fst e))" using assms by (auto simp: plain_paths_def)
  from plain_last[OF this] have l: "relativePath (fst e) \<noteq> []" "last (relativePath (fst e)) \<noteq> CHR ''/''"
    by auto
  then have "last (base @ relativePath (fst e)) \<noteq> CHR ''/''" by simp
  then show "base @ relativePath (fst e) \<notin> set (dir_names r ns)"
    using dir_names_slash by blast
  show "base @ relativePath (fst e) \<noteq> base" using l by simp
qed

lemma zip_loop_entries:
  assumes "good_root base" "base = [] \<or> map_of fs base \<noteq> None" "plain_paths fm"
    and "distinct (map (relativePath \<circ> fst) (text_entries fm))"
    and "\<forall>x d. map_of fs x \<noteq> Some (ZFile d)"
  shows "\<forall>e\<in>set (text_entries fm).
           map_of (zip_loop base fm fs) (base @ relativePath (fst e)) = Some (ZFile (Text (snd e)))"
    and "\<forall>n d. map_of (zip_loop base fm fs) n = Some (ZFile d) \<longrightarrow>
           (\<exists>e\<in>set (text_entries fm). n = base @ relativePath (fst e) \<and> d = Text (snd e))"
    and "\<forall>e\<in>set (text_entries fm). \<forall>n\<in>set (zip_dirs base (fst e)).
           map_of (zip_loop base fm fs) n = Some ZDir"
    and "\<forall>n. map_of (zip_loop base fm fs) n \<noteq> None \<longrightarrow>
           map_of fs n \<noteq> None \<or>
           n \<in> (\<lambda>e. base @ relativePath (fst e)) ` set (text_entries fm) \<or>
           n \<in> (\<Union>e\<in>set (text_entries fm). set (zip_dirs base (fst e)))"
    and "map_of fs base \<noteq> None \<longrightarrow> map_of (zip_loop base fm fs) base = map_of fs base"
proof -
  define L where "L = map (\<lambda>e. (base @ relativePath (fst e), ZFile (Text (snd e)))) (text_entries fm)"
  define D where "D = (\<Union>e\<in>set (text_entries fm). set (zip_dirs base (fst e)))"
  have m: "map_of (zip_loop base fm fs) x =
      (case map_of (rev L) x of Some v \<Rightarrow> Some v
       | None \<Rightarrow> if map_of fs x \<noteq> None then map_of fs x
                  else if x \<in> D then Some ZDir else None)" for x
    unfolding L_def D_def by (rule zip_loop_good[OF assms(1,2,3)])
  have fstL: "map fst L = map ((@) base) (map (relativePath \<circ> fst) (text_entries fm))"
    by (simp add: L_def comp_def)
  have dL: "distinct (map fst (rev L))"
    using assms(4) by (simp add: fstL rev_map[symmetric] distinct_map inj_on_def del: map_map)
  have inL: "map_of (rev L) (base @ relativePath (fst e)) = Some (ZFile (Text (snd e)))"
    if "e \<in> set (text_entries fm)" for e
    using that by (intro map_of_is_SomeI[OF dL]) (auto simp: L_def)
  have notD: "map_of (rev L) n = None" if "n \<in> D" for n
  proof -
    have "n \<notin> fst ` set (rev L)"
      using that plain_rel_no_dir(1)[OF assms(3), of _ base base]
      by (auto simp: L_def D_def zip_dirs_def)
    then show ?thesis by (simp add: map_of_eq_None_iff)
  qed
  have notbase: "map_of (rev L) base = None"
  proof -
    have "base \<notin> fst ` set (rev L)"
      using plain_rel_no_dir(2)[OF assms(3), of _ base] by (auto simp: L_def)
    then show ?thesis by (simp add: map_of_eq_None_iff)
  qed
  show "\<forall>e\<in>set (text_entries fm).
           map_of (zip_loop base fm fs) (base @ relativePath (fst e)) = Some (ZFile (Text (snd e)))"
    by (simp add: m inL)
  show "\<forall>n d. map_of (zip_loop base fm fs) n = Some (ZFile d) \<longrightarrow>
           (\<exists>e\<in>set (text_entries fm). n = base @ relativePath (fst e) \<and> d = Text (snd e))"
  proof (intro allI impI)
    fix n d assume a: "map_of (zip_loop base fm fs) n = Some (ZFile d)"
    show "\<exists>e\<in>set (text_entries fm). n = base @ relativePath (fst e) \<and> d = Text (snd e)"
    proof (cases "map_of (rev L) n")
      case None
      then show ?thesis using a assms(5) by (auto simp: m split: if_splits)
    next
      case (Some v)
      then have "(n, ZFile d) \<in> set (rev L)" using a by (auto simp: m dest: map_of_SomeD)
      then show ?thesis by (auto simp: L_def)
    qed
  qed
  show "\<forall>e\<in>set (text_entries fm). \<forall>n\<in>set (zip_dirs base (fst e)).
           map_of (zip_loop base fm fs) n = Some ZDir"
  proof (intro ballI)
    fix e n assume "e \<in> set (text_entries fm)" "n \<in> set (zip_dirs base (fst e))"
    then have "n \<in> D" by (auto simp: D_def)
    from notD[OF this] \<open>n \<in> D\<close> show "map_of (zip_loop base fm fs) n = Some ZDir"
      using assms(5) by (cases "map_of fs n") (auto simp: m; metis zentry.exhaust)+
  qed
  show "\<forall>n. map_of (zip_loop base fm fs) n \<noteq> None \<longrightarrow>
           map_of fs n \<noteq> None \<or>
           n \<in> (\<lambda>e. base @ relativePath (fst e)) ` set (text_entries fm) \<or>
           n \<in> (\<Union>e\<in>set (text_entries fm). set (zip_dirs base (fst e)))"
  proof (intro allI impI)
    fix n assume a: "map_of (zip_loop base fm fs) n \<noteq> None"
    show "map_of fs n \<noteq> None \<or>
           n \<in> (\<lambda>e. base @ relativePath (fst e)) ` set (text_entries fm) \<or>
           n \<in> (\<Union>e\<in>set (text_entries fm). set (zip_dirs base (fst e)))"
    proof (cases "map_of (rev L) n")
      case None
      then show ?thesis using a by (auto simp: m D_def split: if_splits)
    next
      case (Some v)
      then have "(n, v) \<in> set (rev L)" by (rule map_of_SomeD)
      then show ?thesis by (auto simp: L_def)
    qed
  qed
  show "map_of fs base \<noteq> None \<longrightarrow> map_of (zip_loop base fm fs) base = map_of fs base"
    by (simp add: m notbase)
qed


text \<open>
  C6, amended. When no relative path of a text file of the files store has an empty
  segment and these relative paths are pairwise distinct, the archive that
  \<open>downloadZip\<close> saves as \<open>project.zip\<close> has, for each entry of the files store that
  is a text file, an entry at the relative path of the file that holds its content;
  every file entry of the archive is one of these; the folders on the path of each file
  are folder entries; the archive has no other entry, and no name occurs twice. Binary
  files and folders of the files store contribute nothing.
\<close>

theorem downloadZip_entries:
  assumes "plain_paths (files s)"
    and "distinct (map (relativePath \<circ> fst) (text_entries (files s)))"
  shows "fst (downloadZip s) = ''project.zip'' \<and>
         set (text_entries (files s)) = {(p, c). (p, Some (File c False)) \<in> set (files s)} \<and>
         (\<forall>e\<in>set (text_entries (files s)).
            map_of (snd (downloadZip s)) (relativePath (fst e)) = Some (ZFile (Text (snd e)))) \<and>
         (\<forall>n d. map_of (snd (downloadZip s)) n = Some (ZFile d) \<longrightarrow>
            (\<exists>e\<in>set (text_entries (files s)). n = relativePath (fst e) \<and> d = Text (snd e))) \<and>
         (\<forall>e\<in>set (text_entries (files s)). \<forall>n\<in>set (zip_dirs [] (fst e)).
            map_of (snd (downloadZip s)) n = Some ZDir) \<and>
         (\<forall>n. map_of (snd (downloadZip s)) n \<noteq> None \<longrightarrow>
            n \<in> (relativePath \<circ> fst) ` set (text_entries (files s)) \<or>
            n \<in> (\<Union>e\<in>set (text_entries (files s)). set (zip_dirs [] (fst e)))) \<and>
         distinct (map fst (snd (downloadZip s)))"
proof -
  have g: "good_root []" by (simp add: good_root_def)
  have e: "\<forall>x d. map_of ([] :: zfiles) x \<noteq> Some (ZFile d)" by simp
  note z = zip_loop_entries[OF g _ assms(1,2) e, simplified]
  have d: "distinct (map fst (zip_loop [] (files s) []))"
    by (rule distinct_zip_loop) simp
  show ?thesis
    using z(1,2,3) z(4) d text_entries_set[of "files s"]
    by (simp add: downloadZip_def image_iff)
qed


section \<open>The exported backup\<close>


lemma dir_names_prefix: "n \<in> set (dir_names r ns) \<Longrightarrow> \<exists>t. n = r @ t"
proof (induction ns arbitrary: r)
  case Nil
  then show ?case by simp
next
  case (Cons a ns)
  then show ?case by (auto dest!: Cons.IH)
qed





text \<open>
  C6, as stated, at a files store with the text files \<open>/home/project/a\<close> and \<open>a\<close>:
  both have the relative path \<open>a\<close>, the archive has the single entry \<open>a\<close>, and that
  entry holds the content of the second file, not of the first. And at a files store
  with the text file \<open>/home/project/a//b\<close>: its entry is placed at \<open>a/b\<close>, not at
  the relative path \<open>a//b\<close>.
\<close>

theorem downloadZip_collision_counterexample:
  "text_entries (files ex_odd_store) = [(''/home/project/a'', ''x''), (''a'', ''y'')] \<and>
   is_text_file (Some (File ''x'' False)) \<and>
   relativePath ''/home/project/a'' = ''a'' \<and>
   snd (downloadZip ex_odd_store) = [(''a'', ZFile (Text ''y''))] \<and>
   map_of (snd (downloadZip ex_odd_store)) (relativePath ''/home/project/a'') \<noteq>
     Some (ZFile (Text ''x'')) \<and>
   text_entries (files ex_gap_store) = [(''/home/project/a//b'', ''x'')] \<and>
   relativePath ''/home/project/a//b'' = ''a//b'' \<and>
   snd (downloadZip ex_gap_store) = [(''a/'', ZDir), (''a/b'', ZFile (Text ''x''))]"
  by code_simp

text \<open>C6, amended, on the example store: a nested file, its folder and a file at the top.\<close>

theorem downloadZip_entries_witness:
  "plain_paths (files ex_store) \<and>
   distinct (map (relativePath \<circ> fst) (text_entries (files ex_store))) \<and>
   (''/home/project/src/b.ts'', ''b'') \<in> set (text_entries (files ex_store)) \<and>
   map_of (snd (downloadZip ex_store)) ''src/b.ts'' = Some (ZFile (Text ''b'')) \<and>
   ''src/'' \<in> set (zip_dirs [] ''/home/project/src/b.ts'') \<and>
   map_of (snd (downloadZip ex_store)) ''src/'' = Some ZDir \<and>
   map_of (snd (downloadZip ex_store)) ''a.ts'' = Some (ZFile (Text ''a'')) \<and>
   ''a.ts'' \<in> (relativePath \<circ> fst) ` set (text_entries (files ex_store))"
proof -
  have h1: "plain_paths (files ex_store)" by code_simp
  have h2: "distinct (map (relativePath \<circ> fst) (text_entries (files ex_store)))" by code_simp
  have e: "(''/home/project/src/b.ts'', ''b'') \<in> set (text_entries (files ex_store))"
    "(''/home/project/a.ts'', ''a'') \<in> set (text_entries (files ex_store))"
    by code_simp+
  have r: "relativePath ''/home/project/src/b.ts'' = ''src/b.ts''"
    "relativePath ''/home/project/a.ts'' = ''a.ts''"
    "''src/'' \<in> set (zip_dirs [] ''/home/project/src/b.ts'')"
    by code_simp+
  from downloadZip_entries[OF h1 h2]
  have a: "\<forall>e\<in>set (text_entries (files ex_store)).
            map_of (snd (downloadZip ex_store)) (relativePath (fst e)) = Some (ZFile (Text (snd e)))"
    and b: "\<forall>e\<in>set (text_entries (files ex_store)). \<forall>n\<in>set (zip_dirs [] (fst e)).
            map_of (snd (downloadZip ex_store)) n = Some ZDir"
    by blast+
  have "map_of (snd (downloadZip ex_store)) ''src/b.ts'' = Some (ZFile (Text ''b''))"
    using a[rule_format, OF e(1)] r by simp
  moreover have "map_of (snd (downloadZip ex_store)) ''a.ts'' = Some (ZFile (Text ''a''))"
    using a[rule_format, OF e(2)] r by simp
  moreover have "map_of (snd (downloadZip ex_store)) ''src/'' = Some ZDir"
    using b[rule_format, OF e(1), of "''src/''"] r by simp
  moreover have "''a.ts'' \<in> (relativePath \<circ> fst) ` set (text_entries (files ex_store))"
    using e(2) r(2) by force
  ultimately show ?thesis using h1 h2 e r by simp
qed



section \<open>Restoring a backup\<close>

text \<open>
  C4, at an archive that has valid metadata and a chat history but no code folder:
  \<open>importProjectBackup\<close> does not reject it. The stored chat is deleted, the project
  directory is removed and created again, the two JSON files of the archive are written
  into it, and success is reported.
\<close>

theorem importProjectBackup_without_code_folder:
  "map fst ex_backup = [''metadata.json'', ''chat_history.json''] \<and>
   importProjectBackup ex_backup (Some ex_db) =
     \<lparr>import_db = Some [],
      import_fs =
        [Rm ''/home/project'', Mkdir ''/home/project'',
         WriteFile ''/home/project/metadata.json''
           (Json (JObject [(''exportDate'', JString ''2024-01-02T03:04:05.678Z''),
                           (''version'', JString ''1.0''),
                           (''projectName'', JString ''project'')])),
         WriteFile ''/home/project/chat_history.json'' (Json (JArray []))],
      import_toasts = [ToastInfo ''Starting project restore...'',
                       ToastSuccess ''Project restored successfully'']\<rparr> \<and>
   ex_db \<noteq> []"
  by code_simp

text \<open>
  C4, the same archive: the metadata passes both tests of the code, and the database and
  the project directory are modified.
\<close>

theorem importProjectBackup_without_code_folder_witness:
  "zip_file_get ''metadata.json'' [] ex_backup =
     Some (Json (JObject [(''exportDate'', JString ''2024-01-02T03:04:05.678Z''),
                          (''version'', JString ''1.0''),
                          (''projectName'', JString ''project'')])) \<and>
   truthy (json_get (JObject [(''exportDate'', JString ''2024-01-02T03:04:05.678Z''),
                              (''version'', JString ''1.0''),
                              (''projectName'', JString ''project'')]) ''version'') \<and>
   truthy (json_get (JObject [(''exportDate'', JString ''2024-01-02T03:04:05.678Z''),
                              (''version'', JString ''1.0''),
                              (''projectName'', JString ''project'')]) ''exportDate'') \<and>
   zip_file_get ''chat_history.json'' [] ex_backup = Some (Json (JArray [])) \<and>
   map_of ex_backup ''code/'' = None \<and>
   import_db (importProjectBackup ex_backup (Some ex_db)) = Some [] \<and>
   import_db (importProjectBackup ex_backup (Some ex_db)) \<noteq> Some ex_db \<and>
   import_fs (importProjectBackup ex_backup (Some ex_db)) \<noteq> []"
proof -
  have a: "zip_file_get ''metadata.json'' [] ex_backup =
     Some (Json (JObject [(''exportDate'', JString ''2024-01-02T03:04:05.678Z''),
                          (''version'', JString ''1.0''),
                          (''projectName'', JString ''project'')]))"
    "zip_file_get ''chat_history.json'' [] ex_backup = Some (Json (JArray []))"
    "map_of ex_backup ''code/'' = None"
    by (simp_all add: zip_file_get_def ex_backup_def)
  show ?thesis
    using a importProjectBackup_without_code_folder by auto
qed

text \<open>
  The other cases of C4 hold: without \<open>metadata.json\<close>, without \<open>chat_history.json\<close>,
  or with metadata that lacks the version or the export date, the database is unchanged,
  no call reaches the file system, and one error is notified.
\<close>

lemma importProjectBackup_rejects:
  assumes "zip_file_get ''metadata.json'' [] z = None \<or>
           zip_file_get ''chat_history.json'' [] z = None \<or>
           (\<exists>m. zip_file_get ''metadata.json'' [] z = Some (Json m) \<and>
                (json_get m ''version'' = None \<or> json_get m ''exportDate'' = None))"
  shows "import_db (importProjectBackup z db) = db \<and>
         import_fs (importProjectBackup z db) = [] \<and>
         (\<exists>msg. import_toasts (importProjectBackup z db) = [ToastError msg])"
  using assms
  by (auto simp: importProjectBackup_def Let_def split: prod.splits option.splits json.splits)

end
